theory Spec2Isabelle
  imports Main "HOL-Library.AList" "HOL-Library.Sublist"
begin

section \<open>Permission catalog\<close>

text \<open>
  \<^verbatim>\<open>PermissionManager.permissions\<close> (permission_bot.py, lines 57-105): the fixed list of
  permission names the tool offers, exports and displays.
\<close>

definition permissions :: "string list" where
  "permissions =
    [''create_instant_invite'', ''kick_members'', ''ban_members'', ''administrator'',
     ''manage_channels'', ''manage_guild'', ''add_reactions'', ''view_audit_log'',
     ''priority_speaker'', ''stream'', ''view_channel'', ''send_messages'',
     ''send_tts_messages'', ''manage_messages'', ''embed_links'', ''attach_files'',
     ''read_message_history'', ''mention_everyone'', ''use_external_emojis'',
     ''view_guild_insights'', ''connect'', ''speak'', ''mute_members'', ''deafen_members'',
     ''move_members'', ''use_vad'', ''change_nickname'', ''manage_nicknames'',
     ''manage_roles'', ''manage_webhooks'', ''manage_emojis_and_stickers'',
     ''use_application_commands'', ''request_to_speak'', ''manage_events'',
     ''manage_threads'', ''create_public_threads'', ''create_private_threads'',
     ''use_external_stickers'', ''send_messages_in_threads'', ''use_embedded_activities'',
     ''moderate_members'', ''view_creator_monetization_analytics'', ''use_soundboard'',
     ''send_voice_messages'', ''set_voice_channel_status'', ''use_external_sounds'',
     ''bypass_slowmode'']"

definition get_all_permissions :: "string list" where
  "get_all_permissions = permissions"

section \<open>The overwrite object of the client library\<close>

text \<open>
  The source never looks inside a \<^verbatim>\<open>discord.PermissionOverwrite\<close>; it probes it with
  \<^verbatim>\<open>hasattr\<close>, writes it with \<^verbatim>\<open>setattr\<close> and reads it with \<^verbatim>\<open>getattr\<close>. The object
  holds a table of explicit entries (a flag is \<open>Some True\<close> for allow, \<open>Some False\<close> for
  deny, and has no entry when it is inherited). A name is an attribute of the object in one
  of two ways: as a permission property, which reads and writes one entry of that table
  (two names may share an entry), or as another attribute of the class (a method such as
  \<^verbatim>\<open>is_empty\<close>, \<^verbatim>\<open>pair\<close> or \<^verbatim>\<open>update\<close>), which \<^verbatim>\<open>hasattr\<close> finds and \<^verbatim>\<open>setattr\<close> refuses.
  Which names exist is decided by the installed library, not by this repository, so the
  table of names is a parameter. The slot \<^verbatim>\<open>_values\<close>, which holds the
  table itself and which an assignment would replace, is outside this model: requests and
  files that name it are not covered.
\<close>

datatype attribute = Permission string | Other

type_synonym attr_table = "string \<Rightarrow> attribute option"

type_synonym overwrite = "string \<Rightarrow> bool option"

text \<open>
  Exceptions of Python that are not a \<^verbatim>\<open>discord.DiscordException\<close>, and the values an
  attribute can be read as or set to: \<^verbatim>\<open>True\<close> or \<^verbatim>\<open>False\<close>, \<^verbatim>\<open>None\<close>, or any other object
  (a bound method, a number or a string of a JSON file).
\<close>

datatype py_error = AttributeError | TypeError

datatype py_value = PyBool bool | PyNone | PyObject

definition PermissionOverwrite :: overwrite where
  "PermissionOverwrite = (\<lambda>k. None)"

definition hasattr :: "attr_table \<Rightarrow> string \<Rightarrow> bool" where
  "hasattr lib perm_name = (lib perm_name \<noteq> None)"

text \<open>
  \<^verbatim>\<open>getattr\<close> is only ever reached behind a \<^verbatim>\<open>hasattr\<close> test (lines 415-416); for a name
  that is no attribute the value given here is never used.
\<close>

definition getattr :: "attr_table \<Rightarrow> overwrite \<Rightarrow> string \<Rightarrow> py_value" where
  "getattr lib ow perm_name =
     (case lib perm_name of
        None \<Rightarrow> PyNone
      | Some Other \<Rightarrow> PyObject
      | Some (Permission k) \<Rightarrow> (case ow k of None \<Rightarrow> PyNone | Some b \<Rightarrow> PyBool b))"

text \<open>
  \<^verbatim>\<open>setattr\<close>: a permission property stores \<^verbatim>\<open>True\<close> or \<^verbatim>\<open>False\<close>, removes the entry for
  \<^verbatim>\<open>None\<close> and raises \<^verbatim>\<open>TypeError\<close> for anything else; any other name raises
  \<^verbatim>\<open>AttributeError\<close>.
\<close>

definition setattr :: "attr_table \<Rightarrow> overwrite \<Rightarrow> string \<Rightarrow> py_value \<Rightarrow> py_error + overwrite" where
  "setattr lib ow perm_name v =
     (case lib perm_name of
        None \<Rightarrow> Inl AttributeError
      | Some Other \<Rightarrow> Inl AttributeError
      | Some (Permission k) \<Rightarrow>
          (case v of
             PyBool b \<Rightarrow> Inr (ow(k \<mapsto> b))
           | PyNone \<Rightarrow> Inr (ow(k := None))
           | PyObject \<Rightarrow> Inl TypeError))"

text \<open>
  A table for concrete runs. Every catalog name but \<^verbatim>\<open>use_vad\<close> is a permission property
  with an entry of its own, and so is \<^verbatim>\<open>send_polls\<close>, which the catalog does not list;
  \<^verbatim>\<open>is_empty\<close>, \<^verbatim>\<open>pair\<close> and \<^verbatim>\<open>update\<close> are methods; no other name is an attribute.
\<close>

definition sample_lib :: attr_table where
  "sample_lib n =
     (if n = ''use_vad'' then None
      else if n \<in> set permissions \<or> n = ''send_polls'' then Some (Permission n)
      else if n = ''is_empty'' \<or> n = ''pair'' \<or> n = ''update'' then Some Other
      else None)"

section \<open>Merging requested flags into an overwrite\<close>

text \<open>
  The loop that the source writes three times (lines 227-229, 294-296 and 458-460); an
  exception of \<^verbatim>\<open>setattr\<close> ends it:
  \<^verbatim>\<open>
  for perm_name, value in permissions_dict.items():
      if hasattr(overwrite, perm_name):
          setattr(overwrite, perm_name, value)
  \<close>
  A dictionary is a list of pairs in insertion order with distinct keys.
\<close>

fun set_attributes ::
    "attr_table \<Rightarrow> (string \<times> py_value) list \<Rightarrow> overwrite \<Rightarrow> py_error + overwrite" where
  "set_attributes lib [] ow = Inr ow"
| "set_attributes lib ((perm_name, v) # rest) ow =
     (if hasattr lib perm_name then
        (case setattr lib ow perm_name v of
           Inl e \<Rightarrow> Inl e
         | Inr ow' \<Rightarrow> set_attributes lib rest ow')
      else set_attributes lib rest ow)"

text \<open>The values of a requested \<^verbatim>\<open>Dict[str, bool]\<close> are \<^verbatim>\<open>True\<close> or \<^verbatim>\<open>False\<close>.\<close>

definition set_permissions ::
    "attr_table \<Rightarrow> (string \<times> bool) list \<Rightarrow> overwrite \<Rightarrow> py_error + overwrite" where
  "set_permissions lib permissions_dict ow =
     set_attributes lib (map (\<lambda>(perm_name, v). (perm_name, PyBool v)) permissions_dict) ow"

text \<open>
  Lines 221-229: the overwrite the loop starts from is the role's current one, or a fresh
  \<^verbatim>\<open>discord.PermissionOverwrite()\<close> when the role has none on the channel.
\<close>

definition compute_new_overwrite ::
    "attr_table \<Rightarrow> overwrite option \<Rightarrow> (string \<times> bool) list \<Rightarrow> py_error + overwrite" where
  "compute_new_overwrite lib current requested =
     set_permissions lib requested
       (case current of Some ow \<Rightarrow> ow | None \<Rightarrow> PermissionOverwrite)"

text \<open>Python's \<^verbatim>\<open>{**m1, **m2}\<close>: keys of \<open>m1\<close> keep their place, new keys are appended.\<close>

definition dict_union :: "('k \<times> 'v) list \<Rightarrow> ('k \<times> 'v) list \<Rightarrow> ('k \<times> 'v) list" where
  "dict_union m1 m2 = fold (\<lambda>(k, v). AList.update k v) m2 m1"

section \<open>Guild, channels and the remote store\<close>

text \<open>
  Roles and channels are the objects of the client library; the source reads their
  \<^verbatim>\<open>id\<close> and \<^verbatim>\<open>name\<close> (and, for the export, a channel's type and category). A role is
  looked up in an overwrite dictionary by identity, that is, by its id.
\<close>

record role =
  role_id :: int
  role_name :: string

record channel =
  channel_id :: int
  channel_name :: string
  channel_type :: string
  category_id :: "int option"

record guild =
  guild_id :: int
  guild_name :: string
  roles :: "role list"
  channels :: "channel list"

text \<open>
  A channel's overwrites, \<^verbatim>\<open>Dict[Role, PermissionOverwrite]\<close>, as a list of pairs keyed by
  role id. \<^verbatim>\<open>channel.overwrites\<close> builds a new dictionary of new overwrite objects on every
  access, so a captured copy shares nothing with the objects a later merge mutates.
\<close>

type_synonym overwrite_map = "(int \<times> overwrite) list"

text \<open>
  What rollback needs of the last operation (the dictionary stored in
  \<^verbatim>\<open>self.last_operation\<close>, one constructor for each value of its \<^verbatim>\<open>'type'\<close> key).
  \<^verbatim>\<open>original_overwrites\<close> maps a channel id to the overwrites captured for it.
\<close>

datatype operation =
    BulkRoleToChannel role "channel list" "int \<Rightarrow> overwrite_map option" "(string \<times> bool) list"
  | PatternMatch string string "role list" "channel list" "int \<Rightarrow> overwrite_map option"
      "(string \<times> bool) list"
  | CopyPermissions channel channel overwrite_map
  | ImportConfig "int \<Rightarrow> overwrite_map option" string

text \<open>
  The state the flows read and write: the live overwrites of every channel (by channel id),
  the number of \<^verbatim>\<open>channel.edit\<close> calls issued so far, and the manager's
  \<^verbatim>\<open>last_operation\<close> slot.
\<close>

record state =
  store :: "int \<Rightarrow> overwrite_map"
  attempts :: nat
  last_operation :: "operation option"

text \<open>
  \<^verbatim>\<open>await channel.edit(overwrites=...)\<close> either returns, and the channel then has the
  overwrites it was given, or raises a \<^verbatim>\<open>discord.DiscordException\<close> \<open>e\<close> (the text is
  \<^verbatim>\<open>str(e)\<close>), and the channel is as it was. The remote platform decides: \<open>rem n\<close> is the
  outcome of the \<open>n\<close>-th call of \<^verbatim>\<open>channel.edit\<close>.
\<close>

datatype outcome = Accepted | DiscordException string

type_synonym remote = "nat \<Rightarrow> outcome"

definition edit :: "remote \<Rightarrow> channel \<Rightarrow> overwrite_map \<Rightarrow> state \<Rightarrow> outcome \<times> state" where
  "edit rem c overwrites s =
     (case rem (attempts s) of
        Accepted \<Rightarrow> (Accepted, s\<lparr>store := (store s)(channel_id c := overwrites),
                                  attempts := Suc (attempts s)\<rparr>)
      | DiscordException e \<Rightarrow> (DiscordException e, s\<lparr>attempts := Suc (attempts s)\<rparr>))"

text \<open>The status string the flows record for the outcome of a write.\<close>

definition status :: "outcome \<Rightarrow> string" where
  "status result =
     (case result of Accepted \<Rightarrow> ''Success'' | DiscordException e \<Rightarrow> ''Failed: '' @ e)"

section \<open>Role to channels\<close>

text \<open>
  Lines 208-212 (and 274-278): the overwrites of every target channel, read before any
  write, keyed by channel id.
\<close>

definition capture :: "channel list \<Rightarrow> state \<Rightarrow> int \<Rightarrow> overwrite_map option" where
  "capture chans s =
     fold (\<lambda>c original. original(channel_id c \<mapsto> store s (channel_id c))) chans (\<lambda>i. None)"

text \<open>Lines 218-231: the new overwrite dictionary of one channel for one role.\<close>

definition new_overwrites ::
    "attr_table \<Rightarrow> role \<Rightarrow> (string \<times> bool) list \<Rightarrow> overwrite_map \<Rightarrow> py_error + overwrite_map" where
  "new_overwrites lib r permissions_dict current =
     (case compute_new_overwrite lib (map_of current (role_id r)) permissions_dict of
        Inl e \<Rightarrow> Inl e
      | Inr overwrite \<Rightarrow> Inr (AList.update (role_id r) overwrite current))"

text \<open>
  The loop of lines 215-238. The status is stored under the channel's name; a
  \<^verbatim>\<open>DiscordException\<close> from the write is caught and recorded, and the loop goes on. Any
  other exception leaves the loop and the function, with the writes made so far in place.
\<close>

fun bulk_loop ::
    "attr_table \<Rightarrow> remote \<Rightarrow> role \<Rightarrow> (string \<times> bool) list \<Rightarrow> channel list \<Rightarrow>
     (string \<Rightarrow> string option) \<Rightarrow> state \<Rightarrow> (py_error + (string \<Rightarrow> string option)) \<times> state" where
  "bulk_loop lib rem r permissions_dict [] results s = (Inr results, s)"
| "bulk_loop lib rem r permissions_dict (c # chans) results s =
     (case new_overwrites lib r permissions_dict (store s (channel_id c)) of
        Inl e \<Rightarrow> (Inl e, s)
      | Inr overwrites \<Rightarrow>
          (case edit rem c overwrites s of
             (Accepted, s') \<Rightarrow>
               bulk_loop lib rem r permissions_dict chans
                 (results(channel_name c \<mapsto> ''Success'')) s'
           | (DiscordException e, s') \<Rightarrow>
               bulk_loop lib rem r permissions_dict chans
                 (results(channel_name c \<mapsto> ''Failed: '' @ e)) s'))"

text \<open>
  The result is the returned dictionary, or the exception that left the function, and the
  state. The operation is recorded after the loop, so not when an exception left it.
\<close>

definition bulk_role_to_channel_permissions ::
    "attr_table \<Rightarrow> remote \<Rightarrow> role \<Rightarrow> channel list \<Rightarrow> (string \<times> bool) list \<Rightarrow> state \<Rightarrow>
     (py_error + (string \<Rightarrow> string option)) \<times> state" where
  "bulk_role_to_channel_permissions lib rem r chans permissions_dict s =
     (let original_overwrites = capture chans s in
      case bulk_loop lib rem r permissions_dict chans (\<lambda>k. None) s of
        (Inl e, s') \<Rightarrow> (Inl e, s')
      | (Inr results, s') \<Rightarrow>
          (Inr results,
           s'\<lparr>last_operation :=
                Some (BulkRoleToChannel r chans original_overwrites permissions_dict)\<rparr>))"

section \<open>Pattern match\<close>

text \<open>
  \<^verbatim>\<open>str.lower\<close> on names written in ASCII (the letters \<^verbatim>\<open>A\<close> to \<^verbatim>\<open>Z\<close> are the bytes 65 to
  90), and \<^verbatim>\<open>pattern.lower() in name.lower()\<close> as containment of a contiguous run.
\<close>

definition lower_char :: "char \<Rightarrow> char" where
  "lower_char c =
     (let n = (of_char c :: nat) in if 65 \<le> n \<and> n \<le> 90 then char_of (n + 32) else c)"

definition lower :: "string \<Rightarrow> string" where
  "lower s = map lower_char s"

definition name_matches :: "string \<Rightarrow> string \<Rightarrow> bool" where
  "name_matches pattern name = sublist (lower pattern) (lower name)"

definition matching_roles :: "guild \<Rightarrow> string \<Rightarrow> role list" where
  "matching_roles g role_pattern = filter (\<lambda>r. name_matches role_pattern (role_name r)) (roles g)"

definition matching_channels :: "guild \<Rightarrow> string \<Rightarrow> channel list" where
  "matching_channels g channel_pattern =
     filter (\<lambda>c. name_matches channel_pattern (channel_name c)) (channels g)"

text \<open>
  The loops of lines 281-307, the inner one over the channels for one role and the outer one
  over the roles; the key of a status names the role and the channel.
\<close>

fun pattern_channels ::
    "attr_table \<Rightarrow> remote \<Rightarrow> (string \<times> bool) list \<Rightarrow> role \<Rightarrow> channel list \<Rightarrow>
     (string \<Rightarrow> string option) \<Rightarrow> state \<Rightarrow> (py_error + (string \<Rightarrow> string option)) \<times> state" where
  "pattern_channels lib rem permissions_dict r [] results s = (Inr results, s)"
| "pattern_channels lib rem permissions_dict r (c # chans) results s =
     (case new_overwrites lib r permissions_dict (store s (channel_id c)) of
        Inl e \<Rightarrow> (Inl e, s)
      | Inr overwrites \<Rightarrow>
          (case edit rem c overwrites s of
             (Accepted, s') \<Rightarrow>
               pattern_channels lib rem permissions_dict r chans
                 (results(role_name r @ '' -> '' @ channel_name c \<mapsto> ''Success'')) s'
           | (DiscordException e, s') \<Rightarrow>
               pattern_channels lib rem permissions_dict r chans
                 (results(role_name r @ '' -> '' @ channel_name c \<mapsto> ''Failed: '' @ e)) s'))"

fun pattern_roles ::
    "attr_table \<Rightarrow> remote \<Rightarrow> (string \<times> bool) list \<Rightarrow> channel list \<Rightarrow> role list \<Rightarrow>
     (string \<Rightarrow> string option) \<Rightarrow> state \<Rightarrow> (py_error + (string \<Rightarrow> string option)) \<times> state" where
  "pattern_roles lib rem permissions_dict mchans [] results s = (Inr results, s)"
| "pattern_roles lib rem permissions_dict mchans (r # mroles) results s =
     (case pattern_channels lib rem permissions_dict r mchans results s of
        (Inl e, s') \<Rightarrow> (Inl e, s')
      | (Inr results', s') \<Rightarrow> pattern_roles lib rem permissions_dict mchans mroles results' s')"

text \<open>
  The result is the returned dictionary (or the exception that left the function), the
  lines printed on the console, and the state. The guild is the selected one (the menu does
  not reach this flow without a guild).
\<close>

definition pattern_match_permissions ::
    "attr_table \<Rightarrow> remote \<Rightarrow> guild \<Rightarrow> string \<Rightarrow> string \<Rightarrow> (string \<times> bool) list \<Rightarrow> state \<Rightarrow>
     ((py_error + (string \<Rightarrow> string option)) \<times> string list) \<times> state" where
  "pattern_match_permissions lib rem g role_pattern channel_pattern permissions_dict s =
     (let mroles = matching_roles g role_pattern;
          mchans = matching_channels g channel_pattern
      in if mroles = [] then
           ((Inr (\<lambda>k. None),
             [''[yellow]No roles match pattern: '' @ role_pattern @ ''[/yellow]'']), s)
         else if mchans = [] then
           ((Inr (\<lambda>k. None),
             [''[yellow]No channels match pattern: '' @ channel_pattern @ ''[/yellow]'']), s)
         else
           (let original_overwrites = capture mchans s in
            case pattern_roles lib rem permissions_dict mchans mroles (\<lambda>k. None) s of
              (Inl e, s') \<Rightarrow> ((Inl e, []), s')
            | (Inr results, s') \<Rightarrow>
                ((Inr results, []),
                 s'\<lparr>last_operation :=
                      Some (PatternMatch role_pattern channel_pattern mroles mchans
                              original_overwrites permissions_dict)\<rparr>)))"

section \<open>Copy overwrites\<close>

text \<open>
  Lines 328-345: one write of the source's overwrites to the target; the operation is
  recorded only after the write has returned.
\<close>

definition copy_permissions :: "remote \<Rightarrow> channel \<Rightarrow> channel \<Rightarrow> state \<Rightarrow> string \<times> state" where
  "copy_permissions rem source target s =
     (let original_overwrites = store s (channel_id target) in
      case edit rem target (store s (channel_id source)) s of
        (Accepted, s') \<Rightarrow>
          (''Success'',
           s'\<lparr>last_operation := Some (CopyPermissions source target original_overwrites)\<rparr>)
      | (DiscordException e, s') \<Rightarrow> (''Failed: '' @ e, s'))"

section \<open>Audit\<close>

definition audit_permissions :: "channel \<Rightarrow> state \<Rightarrow> overwrite_map" where
  "audit_permissions target s = store s (channel_id target)"

section \<open>Rollback\<close>

text \<open>
  The loops of lines 365-368 and 372-375: the first write that raises leaves the loop (and
  the \<^verbatim>\<open>try\<close> block) with its exception; \<open>Accepted\<close> means every write was accepted.
\<close>

fun restore ::
    "remote \<Rightarrow> (int \<Rightarrow> overwrite_map option) \<Rightarrow> channel list \<Rightarrow> state \<Rightarrow> outcome \<times> state" where
  "restore rem original [] s = (Accepted, s)"
| "restore rem original (c # cs) s =
     (case original (channel_id c) of
        None \<Rightarrow> restore rem original cs s
      | Some overwrites \<Rightarrow>
          (case edit rem c overwrites s of
             (Accepted, s') \<Rightarrow> restore rem original cs s'
           | (DiscordException e, s') \<Rightarrow> (DiscordException e, s')))"

text \<open>
  The body of the \<^verbatim>\<open>try\<close> block, lines 363-379: an \<^verbatim>\<open>if\<close>/\<^verbatim>\<open>elif\<close> chain over the three
  types \<^verbatim>\<open>bulk_role_to_channel\<close>, \<^verbatim>\<open>pattern_match\<close> and \<^verbatim>\<open>copy_permissions\<close>. No branch
  matches \<^verbatim>\<open>import_config\<close>, so nothing is written for it.
\<close>

fun undo :: "remote \<Rightarrow> operation \<Rightarrow> state \<Rightarrow> outcome \<times> state" where
  "undo rem (BulkRoleToChannel r chans original pd) s = restore rem original chans s"
| "undo rem (PatternMatch rp cp mroles mchans original pd) s = restore rem original mchans s"
| "undo rem (CopyPermissions source target original) s = edit rem target original s"
| "undo rem (ImportConfig original filename) s = (Accepted, s)"

text \<open>The result is the returned boolean, the line printed on the console, and the state.\<close>

definition rollback_last_operation :: "remote \<Rightarrow> state \<Rightarrow> (bool \<times> string) \<times> state" where
  "rollback_last_operation rem s =
     (case last_operation s of
        None \<Rightarrow> ((False, ''[yellow]No operation to rollback![/yellow]''), s)
      | Some operation \<Rightarrow>
          (case undo rem operation s of
             (Accepted, s') \<Rightarrow>
               ((True, ''[green]Rollback successful![/green]''), s'\<lparr>last_operation := None\<rparr>)
           | (DiscordException e, s') \<Rightarrow>
               ((False, ''[red]Rollback failed: '' @ e @ ''[/red]''), s')))"

section \<open>Export and import\<close>

text \<open>
  The exported configuration as the dictionary handed to \<^verbatim>\<open>json.dump\<close> and read back by
  \<^verbatim>\<open>json.load\<close>. A value of an overwrite entry is \<^verbatim>\<open>true\<close> or \<^verbatim>\<open>false\<close>, \<^verbatim>\<open>null\<close>, or
  something else. The keys of \<^verbatim>\<open>overwrites\<close> are \<^verbatim>\<open>str(role.id)\<close>, read back with \<^verbatim>\<open>int\<close>;
  the decimal text stands for the id it denotes.
\<close>

record channel_data =
  cd_id :: int
  cd_name :: string
  cd_type :: string
  cd_category_id :: "int option"
  cd_overwrites :: "(int \<times> (string \<times> py_value) list) list"

record config =
  cfg_guild_id :: int
  cfg_guild_name :: string
  cfg_exported_at :: string
  cfg_channels :: "channel_data list"

text \<open>Lines 412-418: the explicit entries of one overwrite, by catalog name.\<close>

definition overwrite_data :: "attr_table \<Rightarrow> overwrite \<Rightarrow> (string \<times> py_value) list" where
  "overwrite_data lib ow =
     concat (map (\<lambda>perm_name.
                    if hasattr lib perm_name then
                      (let v = getattr lib ow perm_name
                       in if v \<noteq> PyNone then [(perm_name, v)] else [])
                    else [])
                 permissions)"

text \<open>Lines 411-421: the \<^verbatim>\<open>overwrites\<close> object of one channel.\<close>

definition export_overwrites ::
    "attr_table \<Rightarrow> overwrite_map \<Rightarrow> (int \<times> (string \<times> py_value) list) list" where
  "export_overwrites lib overwrites =
     concat (map (\<lambda>(rid, ow).
                    (let d = overwrite_data lib ow in if d \<noteq> [] then [(rid, d)] else []))
                 overwrites)"

text \<open>\<^verbatim>\<open>json.dump\<close> (line 426) raises \<^verbatim>\<open>TypeError\<close> for a value that is no JSON value.\<close>

definition serializable :: "config \<Rightarrow> bool" where
  "serializable cfg =
     list_all (\<lambda>cd. list_all (\<lambda>(rid, d). list_all (\<lambda>(p, v). v \<noteq> PyObject) d) (cd_overwrites cd))
       (cfg_channels cfg)"

text \<open>
  \<^verbatim>\<open>export_config\<close>; \<open>now\<close> is the text of \<^verbatim>\<open>datetime.now().isoformat()\<close>. Without a selected
  guild nothing is exported (\<open>None\<close>); otherwise the result is the configuration written to
  the file, or the exception of \<^verbatim>\<open>json.dump\<close>.
\<close>

definition export_config ::
    "attr_table \<Rightarrow> guild option \<Rightarrow> string \<Rightarrow> state \<Rightarrow> (py_error + config) option" where
  "export_config lib selected now s =
     (case selected of
        None \<Rightarrow> None
      | Some g \<Rightarrow>
          (let cfg = \<lparr>cfg_guild_id = guild_id g, cfg_guild_name = guild_name g,
                       cfg_exported_at = now,
                       cfg_channels =
                         map (\<lambda>c. \<lparr>cd_id = channel_id c, cd_name = channel_name c,
                                   cd_type = channel_type c, cd_category_id = category_id c,
                                   cd_overwrites =
                                     export_overwrites lib (store s (channel_id c))\<rparr>)
                             (channels g)\<rparr>
           in if serializable cfg then Some (Inr cfg) else Some (Inl TypeError)))"

definition get_role :: "guild \<Rightarrow> int \<Rightarrow> role option" where
  "get_role g rid = find (\<lambda>r. role_id r = rid) (roles g)"

definition get_channel :: "guild \<Rightarrow> int \<Rightarrow> channel option" where
  "get_channel g cid = find (\<lambda>c. channel_id c = cid) (channels g)"

text \<open>Lines 457-460: a fresh overwrite with the entries of the file set on it.\<close>

definition import_overwrite :: "attr_table \<Rightarrow> (string \<times> py_value) list \<Rightarrow> py_error + overwrite" where
  "import_overwrite lib data = set_attributes lib data PermissionOverwrite"

text \<open>
  Lines 451-462: the overwrite dictionary rebuilt for one channel; unknown roles are
  skipped.
\<close>

fun import_roles ::
    "attr_table \<Rightarrow> guild \<Rightarrow> (int \<times> (string \<times> py_value) list) list \<Rightarrow> overwrite_map \<Rightarrow>
     py_error + overwrite_map" where
  "import_roles lib g [] new = Inr new"
| "import_roles lib g ((rid, d) # rest) new =
     (case get_role g rid of
        None \<Rightarrow> import_roles lib g rest new
      | Some r \<Rightarrow>
          (case import_overwrite lib d of
             Inl e \<Rightarrow> Inl e
           | Inr overwrite \<Rightarrow> import_roles lib g rest (AList.update (role_id r) overwrite new)))"

definition import_overwrites ::
    "attr_table \<Rightarrow> guild \<Rightarrow> (int \<times> (string \<times> py_value) list) list \<Rightarrow> py_error + overwrite_map" where
  "import_overwrites lib g data = import_roles lib g data []"

text \<open>
  What \<^verbatim>\<open>open\<close> and \<^verbatim>\<open>json.load\<close> make of the file: it is missing, it is not JSON, or
  it holds a configuration of the exported shape.
\<close>

datatype config_file = FileNotFound | InvalidJSON | Parsed config

text \<open>
  The loop of lines 446-465. A write is handed to \<^verbatim>\<open>asyncio.create_task\<close> and not awaited:
  the loop yields the writes it scheduled, in order, and the exception that ended it, if any.
\<close>

fun import_channels ::
    "attr_table \<Rightarrow> guild \<Rightarrow> channel_data list \<Rightarrow> (channel \<times> overwrite_map) list \<Rightarrow>
     py_error option \<times> (channel \<times> overwrite_map) list" where
  "import_channels lib g [] tasks = (None, tasks)"
| "import_channels lib g (cd # rest) tasks =
     (case get_channel g (cd_id cd) of
        None \<Rightarrow> import_channels lib g rest tasks
      | Some c \<Rightarrow>
          (case import_overwrites lib g (cd_overwrites cd) of
             Inl e \<Rightarrow> (Some e, tasks)
           | Inr overwrites \<Rightarrow> import_channels lib g rest (tasks @ [(c, overwrites)])))"

text \<open>
  \<^verbatim>\<open>import_config\<close>: the writes it scheduled, the line it prints, and the state. The
  operation is recorded with a snapshot of every channel of the guild, unless an exception
  ended the loop; \<open>str\<close> gives the text of an exception.
\<close>

definition import_config ::
    "attr_table \<Rightarrow> (py_error \<Rightarrow> string) \<Rightarrow> guild option \<Rightarrow> config_file \<Rightarrow> string \<Rightarrow> state \<Rightarrow>
     ((channel \<times> overwrite_map) list \<times> string list) \<times> state" where
  "import_config lib str selected file filename s =
     (case selected of
        None \<Rightarrow> (([], [''[red]No guild selected![/red]'']), s)
      | Some g \<Rightarrow>
          (case file of
             FileNotFound \<Rightarrow> (([], [''[red]File '' @ filename @ '' not found![/red]'']), s)
           | InvalidJSON \<Rightarrow> (([], [''[red]Invalid JSON in '' @ filename @ ''![/red]'']), s)
           | Parsed cfg \<Rightarrow>
               (let original_overwrites = capture (channels g) s in
                case import_channels lib g (cfg_channels cfg) [] of
                  (Some e, tasks) \<Rightarrow>
                    ((tasks, [''[red]Import failed: '' @ str e @ ''[/red]'']), s)
                | (None, tasks) \<Rightarrow>
                    ((tasks, [''[green]Configuration imported from '' @ filename @ ''[/green]'']),
                     s\<lparr>last_operation := Some (ImportConfig original_overwrites filename)\<rparr>))))"

text \<open>
  The scheduled writes run once the event loop has control, in the order of their creation;
  an exception of a write stays in its task and is never looked at.
\<close>

definition run_tasks :: "remote \<Rightarrow> (channel \<times> overwrite_map) list \<Rightarrow> state \<Rightarrow> state" where
  "run_tasks rem tasks s = fold (\<lambda>(c, overwrites) s'. snd (edit rem c overwrites s')) tasks s"

section \<open>Sample data for concrete runs\<close>

definition moderator :: role where
  "moderator = \<lparr>role_id = 1, role_name = ''Moderator''\<rparr>"

definition everyone :: role where
  "everyone = \<lparr>role_id = 2, role_name = ''@everyone''\<rparr>"

definition general :: channel where
  "general = \<lparr>channel_id = 10, channel_name = ''general'', channel_type = ''text'',
               category_id = None\<rparr>"

definition mod_chat :: channel where
  "mod_chat = \<lparr>channel_id = 11, channel_name = ''mod-chat'', channel_type = ''text'',
                category_id = None\<rparr>"

definition announcements :: channel where
  "announcements = \<lparr>channel_id = 12, channel_name = ''announcements'', channel_type = ''text'',
                     category_id = None\<rparr>"

text \<open>A voice channel with the name of the text channel \<open>general\<close>.\<close>

definition general_voice :: channel where
  "general_voice = \<lparr>channel_id = 13, channel_name = ''general'', channel_type = ''voice'',
                     category_id = None\<rparr>"

definition sample_guild :: guild where
  "sample_guild = \<lparr>guild_id = 100, guild_name = ''Test Server'', roles = [moderator, everyone],
                    channels = [general, mod_chat, announcements, general_voice]\<rparr>"

text \<open>
  Channel 10 has an overwrite for role 1 that allows \<^verbatim>\<open>view_channel\<close>; the other channels
  have none. No operation is recorded.
\<close>

definition sample_state :: state where
  "sample_state =
     \<lparr>store = (\<lambda>i. if i = 10 then [(1, PermissionOverwrite(''view_channel'' \<mapsto> True))] else []),
      attempts = 0, last_operation = None\<rparr>"

definition accept_all :: remote where
  "accept_all n = Accepted"

definition reject_first :: remote where
  "reject_first n = (if n = 0 then DiscordException ''403 Forbidden'' else Accepted)"

definition reject_second :: remote where
  "reject_second n = (if n = 1 then DiscordException ''403 Forbidden'' else Accepted)"

text \<open>
  Overwrites of one channel for the export: role 1 allows \<^verbatim>\<open>view_channel\<close>, denies
  \<^verbatim>\<open>send_messages\<close> and allows \<^verbatim>\<open>send_polls\<close>; role 2 has an overwrite without entries.
\<close>

definition sample_overwrites :: overwrite_map where
  "sample_overwrites =
     [(1, PermissionOverwrite(''view_channel'' \<mapsto> True, ''send_messages'' \<mapsto> False,
            ''send_polls'' \<mapsto> True)),
      (2, PermissionOverwrite)]"

definition export_state :: state where
  "export_state =
     \<lparr>store = (\<lambda>i. if i = 10 then sample_overwrites else []),
      attempts = 0, last_operation = None\<rparr>"

text \<open>The configuration that the export of \<open>export_state\<close> on the sample guild writes.\<close>

definition general_data :: channel_data where
  "general_data =
     \<lparr>cd_id = 10, cd_name = ''general'', cd_type = ''text'', cd_category_id = None,
      cd_overwrites = [(1, [(''view_channel'', PyBool True), (''send_messages'', PyBool False)])]\<rparr>"

definition sample_config :: config where
  "sample_config =
     \<lparr>cfg_guild_id = 100, cfg_guild_name = ''Test Server'',
      cfg_exported_at = ''2026-01-01T00:00:00'',
      cfg_channels =
        [general_data,
         \<lparr>cd_id = 11, cd_name = ''mod-chat'', cd_type = ''text'', cd_category_id = None,
          cd_overwrites = []\<rparr>,
         \<lparr>cd_id = 12, cd_name = ''announcements'', cd_type = ''text'', cd_category_id = None,
          cd_overwrites = []\<rparr>,
         \<lparr>cd_id = 13, cd_name = ''general'', cd_type = ''voice'', cd_category_id = None,
          cd_overwrites = []\<rparr>]\<rparr>"

section \<open>The merge\<close>

lemma distinct_permissions: "distinct permissions"
  unfolding permissions_def by simp

lemma update_fresh: "k \<notin> fst ` set al \<Longrightarrow> AList.update k v al = al @ [(k, v)]"
  by (induction al) auto

lemma dict_union_disjoint:
  "distinct (map fst m2) \<Longrightarrow> fst ` set m1 \<inter> fst ` set m2 = {} \<Longrightarrow> dict_union m1 m2 = m1 @ m2"
proof (induction m2 arbitrary: m1)
  case Nil
  then show ?case by (simp add: dict_union_def)
next
  case (Cons a m2)
  obtain k v where a: "a = (k, v)" by (cases a)
  from Cons.prems have fresh: "k \<notin> fst ` set m1" and d: "distinct (map fst m2)"
    and k2: "k \<notin> fst ` set m2" and dis: "fst ` set m1 \<inter> fst ` set m2 = {}"
    by (auto simp: a)
  have "dict_union m1 (a # m2) = dict_union (m1 @ [(k, v)]) m2"
    by (simp add: dict_union_def a update_fresh[OF fresh])
  also have "\<dots> = (m1 @ [(k, v)]) @ m2"
    using d k2 dis by (intro Cons.IH) auto
  finally show ?case by (simp add: a)
qed

text \<open>One pass of the loop, by the kind of the name.\<close>

lemma set_attributes_Cons:
  "set_attributes lib ((n, v) # rest) ow =
     (case lib n of
        None \<Rightarrow> set_attributes lib rest ow
      | Some Other \<Rightarrow> Inl AttributeError
      | Some (Permission k) \<Rightarrow>
          (case v of
             PyBool b \<Rightarrow> set_attributes lib rest (ow(k \<mapsto> b))
           | PyNone \<Rightarrow> set_attributes lib rest (ow(k := None))
           | PyObject \<Rightarrow> Inl TypeError))"
  by (simp add: hasattr_def setattr_def split: option.splits attribute.splits py_value.splits)

lemma set_attributes_append:
  "set_attributes lib (a @ b) ow =
     (case set_attributes lib a ow of Inl e \<Rightarrow> Inl e | Inr ow' \<Rightarrow> set_attributes lib b ow')"
proof (induction a arbitrary: ow)
  case Nil
  then show ?case by simp
next
  case (Cons x a)
  obtain n v where x: "x = (n, v)" by (cases x)
  show ?case
    by (simp add: x Cons.IH split: sum.splits)
qed

lemma set_attributes_filter:
  "set_attributes lib data ow = set_attributes lib (filter (\<lambda>(n, v). hasattr lib n) data) ow"
  by (induction data arbitrary: ow) (auto split: sum.splits)

text \<open>The entry a finished loop leaves: the last pair that writes it wins.\<close>

lemma set_attributes_entry:
  "set_attributes lib data ow = Inr ow' \<Longrightarrow>
   ow' k =
     (case filter (\<lambda>(n, v). lib n = Some (Permission k)) (rev data) of
        [] \<Rightarrow> ow k
      | (n, v) # _ \<Rightarrow> (case v of PyBool b \<Rightarrow> Some b | _ \<Rightarrow> None))"
proof (induction data arbitrary: ow' rule: rev_induct)
  case Nil
  then show ?case by simp
next
  case (snoc x data)
  obtain n v where x: "x = (n, v)" by (cases x)
  from snoc.prems obtain mid where mid: "set_attributes lib data ow = Inr mid"
    and last: "set_attributes lib [(n, v)] mid = Inr ow'"
    by (auto simp: set_attributes_append x split: sum.splits)
  note ih = snoc.IH[OF mid]
  from last ih show ?case
    unfolding set_attributes_Cons
    by (auto simp: x split: option.splits attribute.splits py_value.splits)
qed

text \<open>When the loop ends with an exception.\<close>

lemma set_attributes_returns:
  "(\<exists>ow'. set_attributes lib data ow = Inr ow') \<longleftrightarrow>
     (\<forall>(n, v)\<in>set data. lib n \<noteq> Some Other \<and> (v = PyObject \<longrightarrow> lib n = None))"
proof (induction data arbitrary: ow)
  case Nil
  then show ?case by simp
next
  case (Cons x data)
  obtain n v where x: "x = (n, v)" by (cases x)
  show ?case
    unfolding x set_attributes_Cons
    by (auto simp: Cons.IH split: option.splits attribute.splits py_value.splits)
qed

lemma set_permissions_returns:
  "(\<exists>ow'. set_permissions lib pd ow = Inr ow') \<longleftrightarrow> (\<forall>(n, v)\<in>set pd. lib n \<noteq> Some Other)"
  unfolding set_permissions_def set_attributes_returns by auto

lemma set_permissions_raises:
  "set_permissions lib pd ow = Inl e \<Longrightarrow> e = AttributeError"
proof (induction pd arbitrary: ow)
  case Nil
  then show ?case by (simp add: set_permissions_def)
next
  case (Cons x pd)
  obtain n v where x: "x = (n, v)" by (cases x)
  from Cons.prems show ?case
    unfolding x set_permissions_def list.map prod.case set_attributes_Cons
    using Cons.IH[unfolded set_permissions_def]
    by (auto split: option.splits attribute.splits)
qed

lemma set_permissions_entry:
  "set_permissions lib pd ow = Inr ow' \<Longrightarrow>
   ow' k =
     (case filter (\<lambda>(n, v). lib n = Some (Permission k)) (rev pd) of
        [] \<Rightarrow> ow k
      | (n, v) # _ \<Rightarrow> Some v)"
proof -
  assume a: "set_permissions lib pd ow = Inr ow'"
  let ?f = "\<lambda>(n, v). (n, PyBool v)"
  have f: "filter (\<lambda>(n, v). lib n = Some (Permission k)) (rev (map ?f pd)) =
           map ?f (filter (\<lambda>(n, v). lib n = Some (Permission k)) (rev pd))"
    by (simp add: rev_map filter_map comp_def case_prod_unfold)
  from set_attributes_entry[OF a[unfolded set_permissions_def], of k] show ?thesis
    unfolding f by (cases "filter (\<lambda>(n, v). lib n = Some (Permission k)) (rev pd)") auto
qed

lemma set_permissions_append:
  "set_permissions lib (a @ b) ow =
     (case set_permissions lib a ow of Inl e \<Rightarrow> Inl e | Inr ow' \<Rightarrow> set_permissions lib b ow')"
  by (simp add: set_permissions_def set_attributes_append split: sum.splits)

lemma filter_key_map_of:
  "distinct (map fst xs) \<Longrightarrow>
     (case filter (\<lambda>(n, v). n = f) (rev xs) of [] \<Rightarrow> a | (n, v) # _ \<Rightarrow> b v) =
     (case map_of xs f of None \<Rightarrow> a | Some v \<Rightarrow> b v)"
proof (induction xs)
  case Nil
  then show ?case by simp
next
  case (Cons x xs)
  obtain n v where x: "x = (n, v)" by (cases x)
  show ?case
  proof (cases "n = f")
    case True
    with Cons.prems x have "f \<notin> fst ` set xs" by auto
    then have "filter (\<lambda>(n, v). n = f) (rev xs) = []"
      by (force simp: filter_empty_conv)
    with True x show ?thesis by simp
  next
    case False
    with Cons x show ?thesis by simp
  qed
qed


lemma compute_returns:
  "(\<exists>ow'. compute_new_overwrite lib current requested = Inr ow') \<longleftrightarrow>
     (\<forall>(n, v)\<in>set requested. lib n \<noteq> Some Other)"
  unfolding compute_new_overwrite_def by (rule set_permissions_returns)

lemma compute_raises:
  "\<exists>(n, v)\<in>set requested. lib n = Some Other \<Longrightarrow>
   compute_new_overwrite lib current requested = Inl AttributeError"
proof -
  assume a: "\<exists>(n, v)\<in>set requested. lib n = Some Other"
  obtain res where res: "compute_new_overwrite lib current requested = res" by simp
  show ?thesis
  proof (cases res)
    case (Inl e)
    with res set_permissions_raises[of lib requested _ e] show ?thesis
      by (simp add: compute_new_overwrite_def)
  next
    case (Inr ow')
    with res compute_returns[of lib current requested] a show ?thesis by fastforce
  qed
qed

lemma compute_entry:
  "compute_new_overwrite lib current requested = Inr ow' \<Longrightarrow>
   ow' k =
     (case filter (\<lambda>(n, v). lib n = Some (Permission k)) (rev requested) of
        [] \<Rightarrow> (case current of Some ow \<Rightarrow> ow k | None \<Rightarrow> None)
      | (n, v) # _ \<Rightarrow> Some v)"
  unfolding compute_new_overwrite_def
  by (drule set_permissions_entry[where k = k])
     (simp add: PermissionOverwrite_def split: option.splits list.splits)

text \<open>
  C9. For two requests with disjoint keys, merging the first and then the second gives what
  merging their union gives, from any record or from none: the same overwrite, or the same
  exception. When no name of one request shares an entry with a name of the other, the union
  taken in the other order gives the same result too.
\<close>

theorem merge_disjoint_requests:
  assumes d1: "distinct (map fst m1)" and d2: "distinct (map fst m2)"
    and dis: "fst ` set m1 \<inter> fst ` set m2 = {}"
  shows "(case compute_new_overwrite lib r m1 of
            Inl e \<Rightarrow> Inl e
          | Inr ow \<Rightarrow> compute_new_overwrite lib (Some ow) m2) =
           compute_new_overwrite lib r (dict_union m1 m2) \<and>
         ((\<forall>a\<in>fst ` set m1. \<forall>b\<in>fst ` set m2. lib a = None \<or> lib a \<noteq> lib b) \<longrightarrow>
           compute_new_overwrite lib r (dict_union m2 m1) =
           compute_new_overwrite lib r (dict_union m1 m2))"
proof
  show "(case compute_new_overwrite lib r m1 of
            Inl e \<Rightarrow> Inl e
          | Inr ow \<Rightarrow> compute_new_overwrite lib (Some ow) m2) =
          compute_new_overwrite lib r (dict_union m1 m2)"
    by (simp add: dict_union_disjoint[OF d2 dis] compute_new_overwrite_def
          set_permissions_append split: sum.splits)
next
  show "(\<forall>a\<in>fst ` set m1. \<forall>b\<in>fst ` set m2. lib a = None \<or> lib a \<noteq> lib b) \<longrightarrow>
           compute_new_overwrite lib r (dict_union m2 m1) =
           compute_new_overwrite lib r (dict_union m1 m2)"
  proof
    assume apart: "\<forall>a\<in>fst ` set m1. \<forall>b\<in>fst ` set m2. lib a = None \<or> lib a \<noteq> lib b"
    from dis have dis': "fst ` set m2 \<inter> fst ` set m1 = {}" by auto
    have u: "dict_union m1 m2 = m1 @ m2" "dict_union m2 m1 = m2 @ m1"
      by (rule dict_union_disjoint[OF d2 dis], rule dict_union_disjoint[OF d1 dis'])
    show "compute_new_overwrite lib r (dict_union m2 m1) =
          compute_new_overwrite lib r (dict_union m1 m2)"
    proof (cases "\<exists>(n, v)\<in>set (m1 @ m2). lib n = Some Other")
      case True
      then have "\<exists>(n, v)\<in>set (m2 @ m1). lib n = Some Other" by auto
      with True show ?thesis by (simp only: u compute_raises)
    next
      case False
      then have c1: "\<forall>(n, v)\<in>set (m1 @ m2). lib n \<noteq> Some Other"
        and c2: "\<forall>(n, v)\<in>set (m2 @ m1). lib n \<noteq> Some Other" by auto
      from c1 obtain x where x: "compute_new_overwrite lib r (m1 @ m2) = Inr x"
        using compute_returns[of lib r "m1 @ m2"] by blast
      from c2 obtain y where y: "compute_new_overwrite lib r (m2 @ m1) = Inr y"
        using compute_returns[of lib r "m2 @ m1"] by blast
      have "y k = x k" for k
      proof (cases "filter (\<lambda>(n, v). lib n = Some (Permission k)) (rev m1) = []")
        case True
        then show ?thesis by (simp add: compute_entry[OF x] compute_entry[OF y])
      next
        case False
        then obtain a v where av: "(a, v) \<in> set m1" and ak: "lib a = Some (Permission k)"
          by (auto simp: filter_empty_conv)
        have "filter (\<lambda>(n, v). lib n = Some (Permission k)) (rev m2) = []"
        proof (rule ccontr)
          assume "filter (\<lambda>(n, v). lib n = Some (Permission k)) (rev m2) \<noteq> []"
          then obtain b w where "(b, w) \<in> set m2" and "lib b = Some (Permission k)"
            by (auto simp: filter_empty_conv)
          with av ak apart show False by force
        qed
        then show ?thesis by (simp add: compute_entry[OF x] compute_entry[OF y])
      qed
      then have "y = x" by (rule ext)
      with x y show ?thesis by (simp only: u)
    qed
  qed
qed

text \<open>Two one-flag requests on the sample table.\<close>

theorem merge_disjoint_requests_witness:
  "distinct (map fst [(''send_messages'', True)]) \<and> distinct (map fst [(''connect'', False)]) \<and>
   fst ` set [(''send_messages'', True)] \<inter> fst ` set [(''connect'', False)] = {} \<and>
   sample_lib ''send_messages'' \<noteq> sample_lib ''connect'' \<and>
   (case compute_new_overwrite sample_lib None [(''send_messages'', True)] of
      Inl e \<Rightarrow> Inl e
    | Inr ow \<Rightarrow> compute_new_overwrite sample_lib (Some ow) [(''connect'', False)]) =
   compute_new_overwrite sample_lib None
     (dict_union [(''send_messages'', True)] [(''connect'', False)]) \<and>
   compute_new_overwrite sample_lib None
     (dict_union [(''connect'', False)] [(''send_messages'', True)]) =
   compute_new_overwrite sample_lib None
     (dict_union [(''send_messages'', True)] [(''connect'', False)]) \<and>
   compute_new_overwrite sample_lib None
     (dict_union [(''send_messages'', True)] [(''connect'', False)]) =
   Inr (PermissionOverwrite(''send_messages'' \<mapsto> True, ''connect'' \<mapsto> False))"
proof -
  have e: "compute_new_overwrite sample_lib None
     (dict_union [(''send_messages'', True)] [(''connect'', False)]) =
   Inr (PermissionOverwrite(''send_messages'' \<mapsto> True, ''connect'' \<mapsto> False))"
    by (simp add: dict_union_def compute_new_overwrite_def set_permissions_def
          hasattr_def setattr_def sample_lib_def permissions_def)
  from e merge_disjoint_requests[of "[(''send_messages'', True)]" "[(''connect'', False)]"
          sample_lib None]
  show ?thesis by (simp add: sample_lib_def permissions_def)
qed


text \<open>
  The entry of a permission property after the merge, when no other requested name shares
  the entry.
\<close>

lemma compute_own_entry:
  assumes ret: "compute_new_overwrite lib current requested = Inr ow'"
    and dict: "distinct (map fst requested)"
    and perm: "lib f = Some (Permission k)"
    and alone: "\<forall>n\<in>fst ` set requested. n \<noteq> f \<longrightarrow> lib n \<noteq> lib f"
  shows "ow' k =
           (case map_of requested f of
              Some v \<Rightarrow> Some v
            | None \<Rightarrow> (case current of Some ow \<Rightarrow> ow k | None \<Rightarrow> None))"
proof -
  have same: "filter (\<lambda>(n, v). lib n = Some (Permission k)) (rev requested) =
              filter (\<lambda>(n, v). n = f) (rev requested)"
  proof (rule filter_cong[OF refl])
    fix x assume "x \<in> set (rev requested)"
    then have "fst x \<in> fst ` set requested" by auto
    with alone perm have "lib (fst x) = Some (Permission k) \<longleftrightarrow> fst x = f" by auto
    then show "(case x of (n, v) \<Rightarrow> lib n = Some (Permission k)) = (case x of (n, v) \<Rightarrow> n = f)"
      by (cases x) simp
  qed
  show ?thesis
    unfolding compute_entry[OF ret] same
    using filter_key_map_of[OF dict, where f = f and b = Some
        and a = "case current of Some ow \<Rightarrow> ow k | None \<Rightarrow> None"]
    by (simp split: option.splits)
qed

lemma getattr_permission:
  "lib f = Some (Permission k) \<Longrightarrow>
   getattr lib ow f = (case ow k of None \<Rightarrow> PyNone | Some b \<Rightarrow> PyBool b)"
  by (simp add: getattr_def)

text \<open>
  C2, as stated, fails: the merge asks the overwrite object, not the catalog. On the sample
  table the requested \<^verbatim>\<open>send_polls\<close>, a permission outside the catalog, is stored, and the
  requested \<^verbatim>\<open>is_empty\<close>, a method of the object, ends the merge with an exception.
\<close>

theorem merge_ignores_catalog:
  "''send_polls'' \<notin> set permissions \<and>
   compute_new_overwrite sample_lib None [(''send_polls'', True)] =
     Inr (PermissionOverwrite(''send_polls'' \<mapsto> True)) \<and>
   getattr sample_lib (PermissionOverwrite(''send_polls'' \<mapsto> True)) ''send_polls'' =
     PyBool True \<and>
   ''is_empty'' \<notin> set permissions \<and>
   compute_new_overwrite sample_lib None [(''is_empty'', True)] = Inl AttributeError"
  by (simp add: permissions_def getattr_def compute_new_overwrite_def set_permissions_def
        hasattr_def setattr_def sample_lib_def)

text \<open>
  C2, amended. A requested name that is not an attribute of the overwrite object is dropped:
  the merge gives what it gives for the request without such names. A requested name that
  is an attribute but no permission property ends the merge with \<^verbatim>\<open>AttributeError\<close>. When
  the merge returns, an entry that no requested name writes has its prior value, and a
  requested permission property, in the catalog or not, has the requested value (when no
  other requested name shares its entry). The import drops names that are no attributes in
  the same way.
\<close>

theorem names_without_attribute_dropped:
  "compute_new_overwrite lib current requested =
     compute_new_overwrite lib current (filter (\<lambda>(n, v). hasattr lib n) requested) \<and>
   ((\<exists>(n, v)\<in>set requested. lib n = Some Other) \<longrightarrow>
      compute_new_overwrite lib current requested = Inl AttributeError) \<and>
   (compute_new_overwrite lib current requested = Inr ow' \<longrightarrow>
      (\<forall>k. (\<forall>(n, v)\<in>set requested. lib n \<noteq> Some (Permission k)) \<longrightarrow>
           ow' k = (case current of Some ow \<Rightarrow> ow k | None \<Rightarrow> None)) \<and>
      (distinct (map fst requested) \<longrightarrow>
         (\<forall>(n, v)\<in>set requested. \<forall>k.
            lib n = Some (Permission k) \<and>
            (\<forall>n'\<in>fst ` set requested. n' \<noteq> n \<longrightarrow> lib n' \<noteq> lib n) \<longrightarrow>
            ow' k = Some v))) \<and>
   import_overwrite lib data = import_overwrite lib (filter (\<lambda>(n, v). hasattr lib n) data)"
proof (intro conjI impI allI ballI)
  have f: "filter (\<lambda>(n, v). hasattr lib n) (map (\<lambda>(n, v). (n, PyBool v)) requested) =
           map (\<lambda>(n, v). (n, PyBool v)) (filter (\<lambda>(n, v). hasattr lib n) requested)"
    by (simp add: filter_map comp_def case_prod_unfold)
  show "compute_new_overwrite lib current requested =
     compute_new_overwrite lib current (filter (\<lambda>(n, v). hasattr lib n) requested)"
    unfolding compute_new_overwrite_def set_permissions_def f[symmetric]
    by (rule set_attributes_filter)
next
  assume "\<exists>(n, v)\<in>set requested. lib n = Some Other"
  then show "compute_new_overwrite lib current requested = Inl AttributeError"
    by (rule compute_raises)
next
  fix k
  assume ret: "compute_new_overwrite lib current requested = Inr ow'"
    and none: "\<forall>(n, v)\<in>set requested. lib n \<noteq> Some (Permission k)"
  from none have "filter (\<lambda>(n, v). lib n = Some (Permission k)) (rev requested) = []"
    by (auto simp: filter_empty_conv)
  then show "ow' k = (case current of Some ow \<Rightarrow> ow k | None \<Rightarrow> None)"
    by (simp add: compute_entry[OF ret])
next
  fix x
  assume ret: "compute_new_overwrite lib current requested = Inr ow'"
    and dict: "distinct (map fst requested)" and x: "x \<in> set requested"
  show "case x of (n, v) \<Rightarrow> \<forall>k.
            lib n = Some (Permission k) \<and>
            (\<forall>n'\<in>fst ` set requested. n' \<noteq> n \<longrightarrow> lib n' \<noteq> lib n) \<longrightarrow>
            ow' k = Some v"
  proof (cases x)
    case (Pair n v)
    with x dict have m: "map_of requested n = Some v" by simp
    show ?thesis
      unfolding Pair prod.case
    proof (intro allI impI)
      fix k
      assume a: "lib n = Some (Permission k) \<and>
                 (\<forall>n'\<in>fst ` set requested. n' \<noteq> n \<longrightarrow> lib n' \<noteq> lib n)"
      then have "ow' k =
           (case map_of requested n of
              Some v \<Rightarrow> Some v
            | None \<Rightarrow> (case current of Some ow \<Rightarrow> ow k | None \<Rightarrow> None))"
        by (intro compute_own_entry[OF ret dict]) auto
      with m show "ow' k = Some v" by simp
    qed
  qed
next
  show "import_overwrite lib data =
          import_overwrite lib (filter (\<lambda>(n, v). hasattr lib n) data)"
    unfolding import_overwrite_def by (rule set_attributes_filter)
qed


text \<open>A request with a name the sample table does not know, and one with a method.\<close>

theorem names_without_attribute_dropped_witness:
  "compute_new_overwrite sample_lib None [(''not_a_permission'', True), (''send_polls'', False)] =
     compute_new_overwrite sample_lib None [(''send_polls'', False)] \<and>
   compute_new_overwrite sample_lib None [(''not_a_permission'', True), (''send_polls'', False)] =
     Inr (PermissionOverwrite(''send_polls'' \<mapsto> False)) \<and>
   sample_lib ''is_empty'' = Some Other \<and>
   compute_new_overwrite sample_lib None [(''connect'', True), (''is_empty'', True)] =
     Inl AttributeError"
proof -
  note a = names_without_attribute_dropped[where lib = sample_lib and current = None
      and requested = "[(''not_a_permission'', True), (''send_polls'', False)]",
      THEN conjunct1]
  note b = names_without_attribute_dropped[where lib = sample_lib and current = None
      and requested = "[(''connect'', True), (''is_empty'', True)]",
      THEN conjunct2, THEN conjunct1]
  have o: "sample_lib ''is_empty'' = Some Other"
    by (simp add: sample_lib_def permissions_def)
  have e: "compute_new_overwrite sample_lib None [(''send_polls'', False)] =
     Inr (PermissionOverwrite(''send_polls'' \<mapsto> False))"
    by (simp add: compute_new_overwrite_def set_permissions_def hasattr_def setattr_def
          sample_lib_def permissions_def)
  from a have a': "compute_new_overwrite sample_lib None
        [(''not_a_permission'', True), (''send_polls'', False)] =
     compute_new_overwrite sample_lib None [(''send_polls'', False)]"
    by (simp add: hasattr_def sample_lib_def permissions_def)
  from b o have b': "compute_new_overwrite sample_lib None
        [(''connect'', True), (''is_empty'', True)] = Inl AttributeError"
    by simp
  from a' e o b' show ?thesis by simp
qed





section \<open>Writes\<close>

lemma edit_fst [simp]: "fst (edit rem c ovs s) = rem (attempts s)"
  by (simp add: edit_def split: outcome.splits)

lemma edit_attempts [simp]: "attempts (snd (edit rem c ovs s)) = Suc (attempts s)"
  by (simp add: edit_def split: outcome.splits)

lemma edit_last_operation [simp]: "last_operation (snd (edit rem c ovs s)) = last_operation s"
  by (simp add: edit_def split: outcome.splits)

lemma edit_store [simp]:
  "store (snd (edit rem c ovs s)) =
     (if rem (attempts s) = Accepted then (store s)(channel_id c := ovs) else store s)"
  by (simp add: edit_def split: outcome.splits)

lemma capture_fold:
  "fold (\<lambda>c original. original(channel_id c \<mapsto> store s (channel_id c))) chans acc i =
     (if i \<in> channel_id ` set chans then Some (store s i) else acc i)"
  by (induction chans arbitrary: acc) auto

lemma capture_apply:
  "capture chans s i = (if i \<in> channel_id ` set chans then Some (store s i) else None)"
  by (simp add: capture_def capture_fold)

section \<open>The loop of the role to channels flow\<close>

lemma new_overwrites_returns:
  "(\<exists>ovs. new_overwrites lib r pd current = Inr ovs) \<longleftrightarrow>
     (\<forall>(n, v)\<in>set pd. lib n \<noteq> Some Other)"
  using compute_returns[of lib "map_of current (role_id r)" pd]
  by (auto simp: new_overwrites_def split: sum.splits)

text \<open>One pass of the loop that does not raise.\<close>

lemma bulk_loop_Cons:
  "new_overwrites lib r pd (store s (channel_id c)) = Inr ovs \<Longrightarrow>
   bulk_loop lib rem r pd (c # chans) results s =
     bulk_loop lib rem r pd chans (results(channel_name c \<mapsto> status (rem (attempts s))))
       (snd (edit rem c ovs s))"
  by (simp add: edit_def status_def split: outcome.splits)

lemma bulk_loop_append:
  "bulk_loop lib rem r pd (a @ b) results s =
     (case bulk_loop lib rem r pd a results s of
        (Inl e, s') \<Rightarrow> (Inl e, s')
      | (Inr results', s') \<Rightarrow> bulk_loop lib rem r pd b results' s')"
proof (induction a arbitrary: results s)
  case Nil
  then show ?case by simp
next
  case (Cons c a)
  show ?case
  proof (cases "new_overwrites lib r pd (store s (channel_id c))")
    case (Inl e)
    then show ?thesis by simp
  next
    case (Inr ovs)
    show ?thesis
      unfolding append_Cons bulk_loop_Cons[OF Inr] by (rule Cons.IH)
  qed
qed

lemma bulk_loop_last_operation:
  "last_operation (snd (bulk_loop lib rem r pd chans results s)) = last_operation s"
proof (induction chans arbitrary: results s)
  case Nil
  then show ?case by simp
next
  case (Cons c chans)
  show ?case
  proof (cases "new_overwrites lib r pd (store s (channel_id c))")
    case (Inl e)
    then show ?thesis by simp
  next
    case (Inr ovs)
    show ?thesis unfolding bulk_loop_Cons[OF Inr] by (simp add: Cons.IH)
  qed
qed

lemma bulk_loop_store_other:
  "i \<notin> channel_id ` set chans \<Longrightarrow>
     store (snd (bulk_loop lib rem r pd chans results s)) i = store s i"
proof (induction chans arbitrary: results s)
  case Nil
  then show ?case by simp
next
  case (Cons c chans)
  show ?case
  proof (cases "new_overwrites lib r pd (store s (channel_id c))")
    case (Inl e)
    then show ?thesis by simp
  next
    case (Inr ovs)
    from Cons.prems show ?thesis unfolding bulk_loop_Cons[OF Inr] by (simp add: Cons.IH)
  qed
qed

text \<open>The loop returns when the merge does; with channels to visit, only then.\<close>

lemma bulk_loop_returns:
  "\<forall>(n, v)\<in>set pd. lib n \<noteq> Some Other \<Longrightarrow>
   \<exists>res. fst (bulk_loop lib rem r pd chans results s) = Inr res"
proof (induction chans arbitrary: results s)
  case Nil
  then show ?case by simp
next
  case (Cons c chans)
  from Cons.prems obtain ovs where
    ovs: "new_overwrites lib r pd (store s (channel_id c)) = Inr ovs"
    using new_overwrites_returns[of lib r pd "store s (channel_id c)"] by blast
  show ?case unfolding bulk_loop_Cons[OF ovs] by (rule Cons.IH[OF Cons.prems])
qed

lemma bulk_loop_returned:
  "fst (bulk_loop lib rem r pd chans results s) = Inr res \<Longrightarrow> chans \<noteq> [] \<Longrightarrow>
   \<forall>(n, v)\<in>set pd. lib n \<noteq> Some Other"
proof (cases chans)
  case Nil
  assume "chans \<noteq> []"
  with Nil show ?thesis by simp
next
  case (Cons c cs)
  assume ret: "fst (bulk_loop lib rem r pd chans results s) = Inr res"
  show ?thesis
  proof (cases "new_overwrites lib r pd (store s (channel_id c))")
    case (Inl e)
    with ret Cons show ?thesis by simp
  next
    case (Inr ovs)
    then show ?thesis
      using new_overwrites_returns[of lib r pd "store s (channel_id c)"] by blast
  qed
qed


lemma bulk_loop_snoc:
  assumes clean: "\<forall>(n, v)\<in>set pd. lib n \<noteq> Some Other"
  shows "\<exists>res' ovs.
     fst (bulk_loop lib rem r pd chans results s) = Inr res' \<and>
     new_overwrites lib r pd
       (store (snd (bulk_loop lib rem r pd chans results s)) (channel_id c)) = Inr ovs \<and>
     bulk_loop lib rem r pd (chans @ [c]) results s =
       (Inr (res'(channel_name c \<mapsto>
               status (rem (attempts (snd (bulk_loop lib rem r pd chans results s)))))),
        snd (edit rem c ovs (snd (bulk_loop lib rem r pd chans results s))))"
proof -
  obtain res' where res': "fst (bulk_loop lib rem r pd chans results s) = Inr res'"
    using bulk_loop_returns[OF clean] by blast
  obtain ovs where ovs: "new_overwrites lib r pd
       (store (snd (bulk_loop lib rem r pd chans results s)) (channel_id c)) = Inr ovs"
    using new_overwrites_returns[of lib r pd] clean by blast
  have pair: "bulk_loop lib rem r pd chans results s =
                (Inr res', snd (bulk_loop lib rem r pd chans results s))"
    using res' by (simp add: prod_eq_iff)
  have "bulk_loop lib rem r pd (chans @ [c]) results s =
          bulk_loop lib rem r pd [c] res' (snd (bulk_loop lib rem r pd chans results s))"
    unfolding bulk_loop_append by (subst pair) simp
  also have "\<dots> = (Inr (res'(channel_name c \<mapsto>
               status (rem (attempts (snd (bulk_loop lib rem r pd chans results s)))))),
        snd (edit rem c ovs (snd (bulk_loop lib rem r pd chans results s))))"
    unfolding bulk_loop_Cons[OF ovs] by simp
  finally show ?thesis using res' ovs by blast
qed

lemma bulk_loop_attempts:
  assumes clean: "\<forall>(n, v)\<in>set pd. lib n \<noteq> Some Other"
  shows "attempts (snd (bulk_loop lib rem r pd chans results s)) = attempts s + length chans"
proof (induction chans rule: rev_induct)
  case Nil
  then show ?case by simp
next
  case (snoc c chans)
  from bulk_loop_snoc[OF clean, of rem r chans results s c] snoc.IH
  show ?case by auto
qed

lemma bulk_loop_results:
  assumes clean: "\<forall>(n, v)\<in>set pd. lib n \<noteq> Some Other"
  shows "j < length chans \<Longrightarrow>
   (\<forall>j'. j < j' \<and> j' < length chans \<longrightarrow> channel_name (chans ! j') \<noteq> channel_name (chans ! j)) \<Longrightarrow>
   fst (bulk_loop lib rem r pd chans results s) = Inr res \<Longrightarrow>
   res (channel_name (chans ! j)) = Some (status (rem (attempts s + j)))"
proof (induction chans arbitrary: res rule: rev_induct)
  case Nil
  then show ?case by simp
next
  case (snoc c chans)
  from bulk_loop_snoc[OF clean, of rem r chans results s c] obtain res' ovs where
    res': "fst (bulk_loop lib rem r pd chans results s) = Inr res'" and
    eq: "bulk_loop lib rem r pd (chans @ [c]) results s =
       (Inr (res'(channel_name c \<mapsto>
               status (rem (attempts (snd (bulk_loop lib rem r pd chans results s)))))),
        snd (edit rem c ovs (snd (bulk_loop lib rem r pd chans results s))))"
    by blast
  from snoc.prems(3) eq have res: "res = res'(channel_name c \<mapsto>
               status (rem (attempts s + length chans)))"
    by (simp add: bulk_loop_attempts[OF clean])
  show ?case
  proof (cases "j = length chans")
    case True
    then show ?thesis by (simp add: res)
  next
    case False
    with snoc.prems have j: "j < length chans" by simp
    from snoc.prems(2)[rule_format, of "length chans"] j
    have ne: "channel_name c \<noteq> channel_name (chans ! j)" by (simp add: nth_append)
    have later: "\<forall>j'. j < j' \<and> j' < length chans \<longrightarrow>
                   channel_name (chans ! j') \<noteq> channel_name (chans ! j)"
    proof (intro allI impI)
      fix j' assume a: "j < j' \<and> j' < length chans"
      with snoc.prems(2)[rule_format, of j'] show
        "channel_name (chans ! j') \<noteq> channel_name (chans ! j)"
        by (simp add: nth_append)
    qed
    from snoc.IH[OF j later res'] ne j show ?thesis
      by (simp add: res nth_append)
  qed
qed

lemma bulk_loop_store:
  assumes clean: "\<forall>(n, v)\<in>set pd. lib n \<noteq> Some Other"
  shows "distinct (map channel_id chans) \<Longrightarrow> j < length chans \<Longrightarrow>
   (if rem (attempts s + j) = Accepted
    then new_overwrites lib r pd (store s (channel_id (chans ! j)))
    else Inr (store s (channel_id (chans ! j)))) =
   Inr (store (snd (bulk_loop lib rem r pd chans results s)) (channel_id (chans ! j)))"
proof (induction chans rule: rev_induct)
  case Nil
  then show ?case by simp
next
  case (snoc c chans)
  from snoc.prems have d: "distinct (map channel_id chans)"
    and fresh: "channel_id c \<notin> channel_id ` set chans" by auto
  from bulk_loop_snoc[OF clean, of rem r chans results s c] obtain res' ovs where
    ovs: "new_overwrites lib r pd
       (store (snd (bulk_loop lib rem r pd chans results s)) (channel_id c)) = Inr ovs" and
    eq: "bulk_loop lib rem r pd (chans @ [c]) results s =
       (Inr (res'(channel_name c \<mapsto>
               status (rem (attempts (snd (bulk_loop lib rem r pd chans results s)))))),
        snd (edit rem c ovs (snd (bulk_loop lib rem r pd chans results s))))"
    by blast
  show ?case
  proof (cases "j = length chans")
    case True
    with ovs show ?thesis
      by (simp add: eq bulk_loop_attempts[OF clean] bulk_loop_store_other[OF fresh])
  next
    case False
    with snoc.prems have j: "j < length chans" by simp
    then have "chans ! j \<in> set chans" by simp
    then have "channel_id (chans ! j) \<noteq> channel_id c" using fresh by (metis imageI)
    with snoc.IH[OF d j] j show ?thesis
      by (simp add: eq nth_append split: if_splits)
  qed
qed


lemma bulk_loop_raises:
  assumes raised: "fst (bulk_loop lib rem r pd chans results s) = Inl e"
  shows "snd (bulk_loop lib rem r pd chans results s) = s"
proof (cases chans)
  case Nil
  with raised show ?thesis by simp
next
  case (Cons c cs)
  show ?thesis
  proof (cases "new_overwrites lib r pd (store s (channel_id c))")
    case (Inl e')
    with Cons show ?thesis by simp
  next
    case (Inr ovs)
    then have "\<forall>(n, v)\<in>set pd. lib n \<noteq> Some Other"
      using new_overwrites_returns[of lib r pd "store s (channel_id c)"] by blast
    from bulk_loop_returns[OF this, of rem r chans results s] raised show ?thesis by auto
  qed
qed

section \<open>Restoring captured overwrites\<close>

lemma restore_last_operation:
  "last_operation (snd (restore rem original cs s)) = last_operation s"
proof (induction cs arbitrary: s)
  case Nil
  then show ?case by simp
next
  case (Cons c cs)
  show ?case
  proof (cases "original (channel_id c)")
    case None
    then show ?thesis by (simp add: Cons.IH)
  next
    case (Some ovs)
    obtain res s' where e: "edit rem c ovs s = (res, s')" by (cases "edit rem c ovs s")
    have lo: "last_operation s' = last_operation s"
      using edit_last_operation[of rem c ovs s] e by simp
    show ?thesis using Some e lo by (cases res) (simp_all add: Cons.IH)
  qed
qed

lemma restore_accepted:
  "fst (restore rem original cs s) = Accepted \<Longrightarrow>
     store (snd (restore rem original cs s)) =
       (\<lambda>i. if i \<in> channel_id ` set cs then
               (case original i of Some ovs \<Rightarrow> ovs | None \<Rightarrow> store s i)
             else store s i) \<and>
     (\<forall>n. attempts s \<le> n \<and> n < attempts (snd (restore rem original cs s)) \<longrightarrow> rem n = Accepted)"
proof (induction cs arbitrary: s)
  case Nil
  then show ?case by auto
next
  case (Cons c cs)
  show ?case
  proof (cases "original (channel_id c)")
    case None
    with Cons.prems have ok: "fst (restore rem original cs s) = Accepted" by simp
    from Cons.IH[OF ok] None show ?thesis by (auto simp: fun_eq_iff)
  next
    case (Some ovs)
    obtain res s' where e: "edit rem c ovs s = (res, s')" by (cases "edit rem c ovs s")
    from Cons.prems Some e have res: "res = Accepted" by (cases res) simp_all
    with Cons.prems Some e have ok: "fst (restore rem original cs s') = Accepted" by simp
    from e res have acc: "rem (attempts s) = Accepted"
      using edit_fst[of rem c ovs s] by simp
    from e have s': "s' = snd (edit rem c ovs s)" by simp
    have st: "store s' = (store s)(channel_id c := ovs)" and at: "attempts s' = Suc (attempts s)"
      using acc by (simp_all add: s')
    have eq: "restore rem original (c # cs) s = restore rem original cs s'"
      using Some e res by simp
    have "\<forall>n. attempts s \<le> n \<and> n < attempts (snd (restore rem original cs s')) \<longrightarrow> rem n = Accepted"
    proof (intro allI impI)
      fix n assume n: "attempts s \<le> n \<and> n < attempts (snd (restore rem original cs s'))"
      show "rem n = Accepted"
      proof (cases "n = attempts s")
        case True
        with acc show ?thesis by simp
      next
        case False
        with n at have "attempts s' \<le> n" by simp
        with n Cons.IH[OF ok] show ?thesis by blast
      qed
    qed
    moreover have "store (snd (restore rem original cs s')) =
       (\<lambda>i. if i \<in> channel_id ` set (c # cs) then
               (case original i of Some ovs \<Rightarrow> ovs | None \<Rightarrow> store s i)
             else store s i)"
      using Cons.IH[OF ok] Some st by (auto simp: fun_eq_iff split: option.splits outcome.splits)
    ultimately show ?thesis by (simp only: eq)
  qed
qed

lemma restore_rejected:
  "fst (restore rem original cs s) = DiscordException e \<Longrightarrow>
     attempts s < attempts (snd (restore rem original cs s)) \<and>
     rem (attempts (snd (restore rem original cs s)) - 1) = DiscordException e"
proof (induction cs arbitrary: s)
  case Nil
  then show ?case by simp
next
  case (Cons c cs)
  show ?case
  proof (cases "original (channel_id c)")
    case None
    with Cons.prems have "fst (restore rem original cs s) = DiscordException e" by simp
    from Cons.IH[OF this] None show ?thesis by simp
  next
    case (Some ovs)
    obtain res s' where ed: "edit rem c ovs s = (res, s')" by (cases "edit rem c ovs s")
    from ed have s': "s' = snd (edit rem c ovs s)" and r: "res = rem (attempts s)"
      using edit_fst[of rem c ovs s] by simp_all
    have at: "attempts s' = Suc (attempts s)" by (simp add: s')
    show ?thesis
    proof (cases res)
      case Accepted
      with Cons.prems Some ed have "fst (restore rem original cs s') = DiscordException e"
        by simp
      from Cons.IH[OF this] Some ed Accepted at show ?thesis by simp
    next
      case (DiscordException e')
      with Cons.prems Some ed have "e' = e" by simp
      with DiscordException Some ed at r show ?thesis by simp
    qed
  qed
qed



section \<open>The loops of the pattern match flow\<close>

lemma pattern_channels_Cons:
  "new_overwrites lib r pd (store s (channel_id c)) = Inr ovs \<Longrightarrow>
   pattern_channels lib rem pd r (c # chans) results s =
     pattern_channels lib rem pd r chans
       (results(role_name r @ '' -> '' @ channel_name c \<mapsto> status (rem (attempts s))))
       (snd (edit rem c ovs s))"
  by (simp add: edit_def status_def split: outcome.splits)

lemma pattern_channels_last_operation:
  "last_operation (snd (pattern_channels lib rem pd r chans results s)) = last_operation s"
proof (induction chans arbitrary: results s)
  case Nil
  then show ?case by simp
next
  case (Cons c chans)
  show ?case
  proof (cases "new_overwrites lib r pd (store s (channel_id c))")
    case (Inl e)
    then show ?thesis by simp
  next
    case (Inr ovs)
    show ?thesis unfolding pattern_channels_Cons[OF Inr] by (simp add: Cons.IH)
  qed
qed

lemma pattern_channels_store_other:
  "i \<notin> channel_id ` set chans \<Longrightarrow>
     store (snd (pattern_channels lib rem pd r chans results s)) i = store s i"
proof (induction chans arbitrary: results s)
  case Nil
  then show ?case by simp
next
  case (Cons c chans)
  show ?case
  proof (cases "new_overwrites lib r pd (store s (channel_id c))")
    case (Inl e)
    then show ?thesis by simp
  next
    case (Inr ovs)
    from Cons.prems show ?thesis
      unfolding pattern_channels_Cons[OF Inr] by (simp add: Cons.IH)
  qed
qed

lemma pattern_channels_raises:
  "\<not> (\<forall>(n, v)\<in>set pd. lib n \<noteq> Some Other) \<Longrightarrow>
   snd (pattern_channels lib rem pd r chans results s) = s"
proof (cases chans)
  case Nil
  then show ?thesis by simp
next
  case (Cons c cs)
  assume "\<not> (\<forall>(n, v)\<in>set pd. lib n \<noteq> Some Other)"
  then obtain e where "new_overwrites lib r pd (store s (channel_id c)) = Inl e"
    using new_overwrites_returns[of lib r pd "store s (channel_id c)"]
    by (cases "new_overwrites lib r pd (store s (channel_id c))") auto
  with Cons show ?thesis by simp
qed

lemma pattern_channels_returns:
  "\<forall>(n, v)\<in>set pd. lib n \<noteq> Some Other \<Longrightarrow>
   \<exists>res. fst (pattern_channels lib rem pd r chans results s) = Inr res"
proof (induction chans arbitrary: results s)
  case Nil
  then show ?case by simp
next
  case (Cons c chans)
  from Cons.prems obtain ovs where
    ovs: "new_overwrites lib r pd (store s (channel_id c)) = Inr ovs"
    using new_overwrites_returns[of lib r pd "store s (channel_id c)"] by blast
  show ?case unfolding pattern_channels_Cons[OF ovs] by (rule Cons.IH[OF Cons.prems])
qed

lemma pattern_roles_Cons:
  "pattern_roles lib rem pd mchans (r # mroles) results s =
     (case fst (pattern_channels lib rem pd r mchans results s) of
        Inl e \<Rightarrow> (Inl e, snd (pattern_channels lib rem pd r mchans results s))
      | Inr results' \<Rightarrow>
          pattern_roles lib rem pd mchans mroles results'
            (snd (pattern_channels lib rem pd r mchans results s)))"
  by (simp add: split_beta split: sum.splits prod.splits)

lemma pattern_roles_last_operation:
  "last_operation (snd (pattern_roles lib rem pd mchans mroles results s)) = last_operation s"
proof (induction mroles arbitrary: results s)
  case Nil
  then show ?case by simp
next
  case (Cons r mroles)
  show ?case unfolding pattern_roles_Cons
    by (simp add: Cons.IH pattern_channels_last_operation split: sum.splits)
qed

lemma pattern_roles_store_other:
  "i \<notin> channel_id ` set mchans \<Longrightarrow>
     store (snd (pattern_roles lib rem pd mchans mroles results s)) i = store s i"
proof (induction mroles arbitrary: results s)
  case Nil
  then show ?case by simp
next
  case (Cons r mroles)
  from Cons.prems show ?case unfolding pattern_roles_Cons
    by (simp add: Cons.IH pattern_channels_store_other split: sum.splits)
qed

lemma pattern_roles_returns:
  "\<forall>(n, v)\<in>set pd. lib n \<noteq> Some Other \<Longrightarrow>
   \<exists>res. fst (pattern_roles lib rem pd mchans mroles results s) = Inr res"
proof (induction mroles arbitrary: results s)
  case Nil
  then show ?case by simp
next
  case (Cons r mroles)
  from pattern_channels_returns[OF Cons.prems, of rem r mchans results s]
  obtain res where "fst (pattern_channels lib rem pd r mchans results s) = Inr res" by blast
  then show ?case unfolding pattern_roles_Cons by (simp add: Cons.IH[OF Cons.prems])
qed

lemma pattern_roles_raises:
  assumes raised: "fst (pattern_roles lib rem pd mchans mroles results s) = Inl e"
  shows "snd (pattern_roles lib rem pd mchans mroles results s) = s"
proof -
  have dirty: "\<not> (\<forall>(n, v)\<in>set pd. lib n \<noteq> Some Other)"
    using pattern_roles_returns[of pd lib rem mchans mroles results s] raised by auto
  have "snd (pattern_roles lib rem pd mchans mroles results' s) = s" for results'
  proof (induction mroles arbitrary: results')
    case Nil
    then show ?case by simp
  next
    case (Cons r mroles)
    show ?case unfolding pattern_roles_Cons
      by (simp add: Cons.IH pattern_channels_raises[OF dirty] split: sum.splits)
  qed
  then show ?thesis .
qed

section \<open>What the flows leave in the state\<close>

lemma bulk_returned:
  assumes "fst (bulk_role_to_channel_permissions lib rem r chans pd s) = Inr res"
  shows "fst (bulk_loop lib rem r pd chans (\<lambda>k. None) s) = Inr res"
    and "snd (bulk_role_to_channel_permissions lib rem r chans pd s) =
     (snd (bulk_loop lib rem r pd chans (\<lambda>k. None) s))
       \<lparr>last_operation := Some (BulkRoleToChannel r chans (capture chans s) pd)\<rparr>"
  using assms
  by (auto simp: bulk_role_to_channel_permissions_def Let_def split: prod.splits sum.splits)

lemma bulk_raised:
  assumes "fst (bulk_role_to_channel_permissions lib rem r chans pd s) = Inl e"
  shows "snd (bulk_role_to_channel_permissions lib rem r chans pd s) = s"
proof -
  from assms have l: "fst (bulk_loop lib rem r pd chans (\<lambda>k. None) s) = Inl e"
    by (auto simp: bulk_role_to_channel_permissions_def Let_def split: prod.splits sum.splits)
  from bulk_loop_raises[OF l] l show ?thesis
    by (auto simp: bulk_role_to_channel_permissions_def Let_def split: prod.splits sum.splits)
qed

lemma bulk_returns:
  assumes clean: "\<forall>(n, v)\<in>set pd. lib n \<noteq> Some Other"
  shows "\<exists>res. fst (bulk_role_to_channel_permissions lib rem r chans pd s) = Inr res"
  using bulk_loop_returns[OF clean, of rem r chans "\<lambda>k. None" s]
  by (auto simp: bulk_role_to_channel_permissions_def Let_def split: prod.splits sum.splits)

lemma pattern_abort:
  "matching_roles g rp = [] \<or> matching_channels g cp = [] \<Longrightarrow>
   pattern_match_permissions lib rem g rp cp pd s =
     ((Inr (\<lambda>k. None),
       [if matching_roles g rp = []
        then ''[yellow]No roles match pattern: '' @ rp @ ''[/yellow]''
        else ''[yellow]No channels match pattern: '' @ cp @ ''[/yellow]'']), s)"
  by (auto simp: pattern_match_permissions_def Let_def)

lemma pattern_returned:
  assumes "matching_roles g rp \<noteq> []" and "matching_channels g cp \<noteq> []"
    and "fst (fst (pattern_match_permissions lib rem g rp cp pd s)) = Inr res"
  shows "snd (pattern_match_permissions lib rem g rp cp pd s) =
     (snd (pattern_roles lib rem pd (matching_channels g cp) (matching_roles g rp)
             (\<lambda>k. None) s))
       \<lparr>last_operation :=
          Some (PatternMatch rp cp (matching_roles g rp) (matching_channels g cp)
                  (capture (matching_channels g cp) s) pd)\<rparr>"
  using assms
  by (auto simp: pattern_match_permissions_def Let_def split: prod.splits sum.splits)

lemma pattern_raised:
  assumes "fst (fst (pattern_match_permissions lib rem g rp cp pd s)) = Inl e"
  shows "snd (pattern_match_permissions lib rem g rp cp pd s) = s"
proof -
  let ?l = "pattern_roles lib rem pd (matching_channels g cp) (matching_roles g rp)
              (\<lambda>k. None) s"
  from assms have mr: "matching_roles g rp \<noteq> []" and mc: "matching_channels g cp \<noteq> []"
    by (auto simp: pattern_match_permissions_def Let_def split: if_splits)
  with assms have l: "fst ?l = Inl e"
    by (auto simp: pattern_match_permissions_def Let_def split: prod.splits sum.splits)
  from pattern_roles_raises[OF l] l mr mc show ?thesis
    by (auto simp: pattern_match_permissions_def Let_def split: prod.splits sum.splits)
qed

lemma pattern_returns:
  assumes clean: "\<forall>(n, v)\<in>set pd. lib n \<noteq> Some Other"
  shows "\<exists>res. fst (fst (pattern_match_permissions lib rem g rp cp pd s)) = Inr res"
  using pattern_roles_returns[OF clean, of rem "matching_channels g cp" "matching_roles g rp"
          "\<lambda>k. None" s]
  by (auto simp: pattern_match_permissions_def Let_def split: prod.splits sum.splits)

lemma copy_fst: "fst (copy_permissions rem source target s) = status (rem (attempts s))"
  by (simp add: copy_permissions_def edit_def status_def split: option.splits outcome.splits)

lemma copy_accepted:
  "rem (attempts s) = Accepted \<Longrightarrow>
   snd (copy_permissions rem source target s) =
     s\<lparr>store := (store s)(channel_id target := store s (channel_id source)),
       attempts := Suc (attempts s),
       last_operation := Some (CopyPermissions source target (store s (channel_id target)))\<rparr>"
  by (simp add: copy_permissions_def edit_def)

lemma copy_rejected:
  "rem (attempts s) = DiscordException e \<Longrightarrow>
   snd (copy_permissions rem source target s) = s\<lparr>attempts := Suc (attempts s)\<rparr>"
  by (simp add: copy_permissions_def edit_def)

lemma status_Success: "status outcome = ''Success'' \<longleftrightarrow> outcome = Accepted"
  by (cases outcome) (simp_all add: status_def)


section \<open>Rollback\<close>

lemma undo_last_operation: "last_operation (snd (undo rem operation s)) = last_operation s"
  by (cases operation) (simp_all add: restore_last_operation)

lemma rollback_none:
  "last_operation s = None \<Longrightarrow>
   rollback_last_operation rem s = ((False, ''[yellow]No operation to rollback![/yellow]''), s)"
  by (simp add: rollback_last_operation_def)

lemma rollback_ok:
  "last_operation s = Some operation \<Longrightarrow>
   fst (fst (rollback_last_operation rem s)) \<longleftrightarrow> fst (undo rem operation s) = Accepted"
  by (simp add: rollback_last_operation_def split_beta
        split: option.splits outcome.splits prod.splits)

lemma rollback_line:
  "last_operation s = Some operation \<Longrightarrow>
   snd (fst (rollback_last_operation rem s)) =
     (case fst (undo rem operation s) of
        Accepted \<Rightarrow> ''[green]Rollback successful![/green]''
      | DiscordException e \<Rightarrow> ''[red]Rollback failed: '' @ e @ ''[/red]'')"
  by (simp add: rollback_last_operation_def split_beta
        split: option.splits outcome.splits prod.splits)

lemma rollback_store:
  "last_operation s = Some operation \<Longrightarrow>
   store (snd (rollback_last_operation rem s)) = store (snd (undo rem operation s))"
  by (simp add: rollback_last_operation_def split_beta
        split: option.splits outcome.splits prod.splits)

lemma rollback_attempts:
  "last_operation s = Some operation \<Longrightarrow>
   attempts (snd (rollback_last_operation rem s)) = attempts (snd (undo rem operation s))"
  by (simp add: rollback_last_operation_def split_beta
        split: option.splits outcome.splits prod.splits)

lemma rollback_last_operation_after:
  "last_operation s = Some operation \<Longrightarrow>
   last_operation (snd (rollback_last_operation rem s)) =
     (if fst (undo rem operation s) = Accepted then None else Some operation)"
  using undo_last_operation[of rem operation s]
  by (auto simp: rollback_last_operation_def split_beta
        split: option.splits outcome.splits prod.splits)

lemma restore_captured:
  assumes ok: "fst (restore rem (capture chans s0) chans s) = Accepted"
    and other: "\<And>i. i \<notin> channel_id ` set chans \<Longrightarrow> store s i = store s0 i"
  shows "store (snd (restore rem (capture chans s0) chans s)) = store s0"
  using restore_accepted[OF ok] other by (auto simp: fun_eq_iff capture_apply)




section \<open>Rollback after one operation\<close>

text \<open>
  C1. A role to channels batch or a pattern match with roles and channels that returned
  (an exception leaves the flow before anything is written or recorded: that is the last
  part below, and a request whose names are all permissions or unknown raises none), or a
  copy that returned \<^verbatim>\<open>Success\<close>, followed at once by a rollback that returns \<^verbatim>\<open>True\<close>,
  leaves the overwrites of every channel exactly as they were before the operation: the
  maps captured before the first write are the ones written back.
\<close>

theorem rollback_restores_store:
  "((\<exists>results. fst (bulk_role_to_channel_permissions lib rem r chans pd s) = Inr results) \<and>
    fst (fst (rollback_last_operation rem
             (snd (bulk_role_to_channel_permissions lib rem r chans pd s)))) \<longrightarrow>
      store (snd (rollback_last_operation rem
                   (snd (bulk_role_to_channel_permissions lib rem r chans pd s)))) = store s) \<and>
   (matching_roles g rp \<noteq> [] \<and> matching_channels g cp \<noteq> [] \<and>
    (\<exists>results. fst (fst (pattern_match_permissions lib rem g rp cp pd s)) = Inr results) \<and>
    fst (fst (rollback_last_operation rem
             (snd (pattern_match_permissions lib rem g rp cp pd s)))) \<longrightarrow>
      store (snd (rollback_last_operation rem
                   (snd (pattern_match_permissions lib rem g rp cp pd s)))) = store s) \<and>
   (fst (copy_permissions rem source target s) = ''Success'' \<and>
    fst (fst (rollback_last_operation rem (snd (copy_permissions rem source target s)))) \<longrightarrow>
      store (snd (rollback_last_operation rem (snd (copy_permissions rem source target s)))) =
        store s) \<and>
   ((\<forall>(n, v)\<in>set pd. lib n \<noteq> Some Other) \<longrightarrow>
      (\<exists>results. fst (bulk_role_to_channel_permissions lib rem r chans pd s) = Inr results) \<and>
      (\<exists>results. fst (fst (pattern_match_permissions lib rem g rp cp pd s)) = Inr results)) \<and>
   (\<forall>e. fst (bulk_role_to_channel_permissions lib rem r chans pd s) = Inl e \<longrightarrow>
        snd (bulk_role_to_channel_permissions lib rem r chans pd s) = s) \<and>
   (\<forall>e. fst (fst (pattern_match_permissions lib rem g rp cp pd s)) = Inl e \<longrightarrow>
        snd (pattern_match_permissions lib rem g rp cp pd s) = s)"
proof (intro conjI impI allI)
  let ?s1 = "snd (bulk_role_to_channel_permissions lib rem r chans pd s)"
  let ?operation = "BulkRoleToChannel r chans (capture chans s) pd"
  assume a: "(\<exists>results. fst (bulk_role_to_channel_permissions lib rem r chans pd s) =
                Inr results) \<and> fst (fst (rollback_last_operation rem ?s1))"
  then obtain res where
    ret: "fst (bulk_role_to_channel_permissions lib rem r chans pd s) = Inr res"
    and ok: "fst (fst (rollback_last_operation rem ?s1))" by blast
  note s1 = bulk_returned(2)[OF ret]
  have lo: "last_operation ?s1 = Some ?operation" by (simp add: s1)
  from ok have acc: "fst (restore rem (capture chans s) chans ?s1) = Accepted"
    by (simp add: rollback_ok[OF lo])
  have "store (snd (restore rem (capture chans s) chans ?s1)) = store s"
    by (rule restore_captured[OF acc]) (simp add: s1 bulk_loop_store_other)
  then show "store (snd (rollback_last_operation rem ?s1)) = store s"
    by (simp add: rollback_store[OF lo])
next
  let ?s1 = "snd (pattern_match_permissions lib rem g rp cp pd s)"
  let ?mc = "matching_channels g cp"
  let ?operation = "PatternMatch rp cp (matching_roles g rp) ?mc (capture ?mc s) pd"
  assume a: "matching_roles g rp \<noteq> [] \<and> ?mc \<noteq> [] \<and>
             (\<exists>results. fst (fst (pattern_match_permissions lib rem g rp cp pd s)) =
                Inr results) \<and>
             fst (fst (rollback_last_operation rem ?s1))"
  then obtain res where mr: "matching_roles g rp \<noteq> []" and mc: "?mc \<noteq> []"
    and ret: "fst (fst (pattern_match_permissions lib rem g rp cp pd s)) = Inr res"
    and ok: "fst (fst (rollback_last_operation rem ?s1))" by blast
  note s1 = pattern_returned[OF mr mc ret]
  have lo: "last_operation ?s1 = Some ?operation" by (simp add: s1)
  from ok have acc: "fst (restore rem (capture ?mc s) ?mc ?s1) = Accepted"
    by (simp add: rollback_ok[OF lo])
  have "store (snd (restore rem (capture ?mc s) ?mc ?s1)) = store s"
    by (rule restore_captured[OF acc]) (simp add: s1 pattern_roles_store_other)
  then show "store (snd (rollback_last_operation rem ?s1)) = store s"
    by (simp add: rollback_store[OF lo])
next
  let ?s1 = "snd (copy_permissions rem source target s)"
  let ?operation = "CopyPermissions source target (store s (channel_id target))"
  assume a: "fst (copy_permissions rem source target s) = ''Success'' \<and>
             fst (fst (rollback_last_operation rem ?s1))"
  then have w: "rem (attempts s) = Accepted" and ok: "fst (fst (rollback_last_operation rem ?s1))"
    by (simp_all add: copy_fst status_Success)
  have lo: "last_operation ?s1 = Some ?operation" by (simp add: copy_accepted[of rem s, OF w])
  from ok have "fst (undo rem ?operation ?s1) = Accepted"
    by (simp only: rollback_ok[OF lo])
  then have acc: "rem (Suc (attempts s)) = Accepted"
    by (simp add: copy_accepted[of rem s, OF w])
  have "store (snd (undo rem ?operation ?s1)) = store s"
    by (simp add: copy_accepted[of rem s, OF w] acc fun_eq_iff)
  then show "store (snd (rollback_last_operation rem ?s1)) = store s"
    by (simp only: rollback_store[OF lo])
next
  assume "\<forall>(n, v)\<in>set pd. lib n \<noteq> Some Other"
  then show "\<exists>results. fst (bulk_role_to_channel_permissions lib rem r chans pd s) =
               Inr results"
    by (rule bulk_returns)
next
  assume "\<forall>(n, v)\<in>set pd. lib n \<noteq> Some Other"
  then show "\<exists>results. fst (fst (pattern_match_permissions lib rem g rp cp pd s)) =
               Inr results"
    by (rule pattern_returns)
next
  fix e assume "fst (bulk_role_to_channel_permissions lib rem r chans pd s) = Inl e"
  then show "snd (bulk_role_to_channel_permissions lib rem r chans pd s) = s"
    by (rule bulk_raised)
next
  fix e assume "fst (fst (pattern_match_permissions lib rem g rp cp pd s)) = Inl e"
  then show "snd (pattern_match_permissions lib rem g rp cp pd s) = s"
    by (rule pattern_raised)
qed


section \<open>Partial failure of a batch\<close>

lemma restore_store_other:
  "i \<notin> channel_id ` set cs \<Longrightarrow> store (snd (restore rem original cs s)) i = store s i"
proof (induction cs arbitrary: s)
  case Nil
  then show ?case by simp
next
  case (Cons c cs)
  from Cons.prems have i: "i \<notin> channel_id ` set cs" and ne: "i \<noteq> channel_id c" by auto
  show ?case
  proof (cases "original (channel_id c)")
    case None
    then show ?thesis by (simp add: Cons.IH[OF i])
  next
    case (Some ovs)
    obtain res s' where e: "edit rem c ovs s = (res, s')" by (cases "edit rem c ovs s")
    have st: "store s' i = store s i"
      using edit_store[of rem c ovs s] e ne by simp
    show ?thesis using Some e st by (cases res) (simp_all add: Cons.IH[OF i])
  qed
qed

text \<open>
  The writes of a rollback are issued in the order of the list and stop at the first one
  rejected: the channels before it hold their captured overwrites again.
\<close>

lemma restore_prefix:
  "distinct (map channel_id cs) \<Longrightarrow>
   \<forall>c\<in>set cs. original (channel_id c) = Some (f (channel_id c)) \<Longrightarrow>
   k \<le> length cs \<Longrightarrow> \<forall>j<k. rem (attempts s + j) = Accepted \<Longrightarrow> j < k \<Longrightarrow>
   store (snd (restore rem original cs s)) (channel_id (cs ! j)) = f (channel_id (cs ! j))"
proof (induction cs arbitrary: s k j)
  case Nil
  then show ?case by simp
next
  case (Cons c cs)
  from Cons.prems(1) have d: "distinct (map channel_id cs)"
    and fresh: "channel_id c \<notin> channel_id ` set cs" by auto
  from Cons.prems(2) have orig: "original (channel_id c) = Some (f (channel_id c))"
    and origs: "\<forall>c\<in>set cs. original (channel_id c) = Some (f (channel_id c))" by auto
  from Cons.prems(4,5) have first: "rem (attempts s) = Accepted"
    by (metis add.right_neutral less_nat_zero_code not_gr_zero less_trans)
  let ?s' = "snd (edit rem c (f (channel_id c)) s)"
  have step: "restore rem original (c # cs) s = restore rem original cs ?s'"
    using orig first by (simp add: edit_def)
  show ?case
  proof (cases j)
    case 0
    then show ?thesis unfolding step
      by (simp add: restore_store_other[OF fresh] first)
  next
    case (Suc j')
    from Cons.prems(3,5) Suc obtain k' where k: "k = Suc k'" and k': "k' \<le> length cs"
      and j': "j' < k'" by (cases k) auto
    have acc: "\<forall>j<k'. rem (attempts ?s' + j) = Accepted"
      using Cons.prems(4) k by auto
    from Cons.IH[OF d origs k' acc j'] Suc show ?thesis unfolding step by simp
  qed
qed


text \<open>
  C3, amended. A batch whose request raises no exception in the merge (none does when every
  requested name is a permission or unknown to the library) returns, and an exception
  leaves the batch before anything is written. Whatever the remote answers, a batch that
  returns has issued one write for every channel of the list, in order (the write for the
  channel at position \<open>j\<close> is call number \<open>attempts s + j\<close>); the returned map, keyed by
  channel name, holds the status of every channel whose name no later channel of the list
  bears; an accepted write stores the merged overwrites and a rejected one leaves the
  channel as it was (for a list without repeated channels); and the recorded operation
  holds, for every channel of the list, the overwrites it had before the batch. So a
  rollback can undo the writes that succeeded: one that returns \<^verbatim>\<open>True\<close> leaves every
  channel of the list with the overwrites it had before the batch, and one whose first \<open>k\<close>
  writes are accepted has restored the first \<open>k\<close> channels of the list, whatever happens to
  its later writes.
\<close>

theorem bulk_partial_failure:
  "((\<forall>(n, v)\<in>set pd. lib n \<noteq> Some Other) \<longrightarrow>
      (\<exists>results. fst (bulk_role_to_channel_permissions lib rem r chans pd s) = Inr results)) \<and>
   (case bulk_role_to_channel_permissions lib rem r chans pd s of
      (Inl e, s1) \<Rightarrow> s1 = s
    | (Inr results, s1) \<Rightarrow>
        attempts s1 = attempts s + length chans \<and>
        (\<forall>j<length chans.
           (\<forall>j'. j < j' \<and> j' < length chans \<longrightarrow>
                 channel_name (chans ! j') \<noteq> channel_name (chans ! j)) \<longrightarrow>
           results (channel_name (chans ! j)) = Some (status (rem (attempts s + j)))) \<and>
        (distinct (map channel_id chans) \<longrightarrow>
           (\<forall>j<length chans.
              (if rem (attempts s + j) = Accepted
               then new_overwrites lib r pd (store s (channel_id (chans ! j)))
               else Inr (store s (channel_id (chans ! j)))) =
              Inr (store s1 (channel_id (chans ! j))))) \<and>
        (\<exists>original.
           last_operation s1 = Some (BulkRoleToChannel r chans original pd) \<and>
           (\<forall>c\<in>set chans. original (channel_id c) = Some (store s (channel_id c)))) \<and>
        (fst (fst (rollback_last_operation rem s1)) \<longrightarrow>
           (\<forall>c\<in>set chans.
              store (snd (rollback_last_operation rem s1)) (channel_id c) =
                store s (channel_id c))) \<and>
        (distinct (map channel_id chans) \<longrightarrow>
           (\<forall>k\<le>length chans.
              (\<forall>j<k. rem (attempts s1 + j) = Accepted) \<longrightarrow>
              (\<forall>j<k. store (snd (rollback_last_operation rem s1)) (channel_id (chans ! j)) =
                        store s (channel_id (chans ! j))))))"
proof -
  let ?b = "bulk_role_to_channel_permissions lib rem r chans pd s"
  let ?s1 = "snd ?b"
  let ?operation = "BulkRoleToChannel r chans (capture chans s) pd"
  have ret: "(\<forall>(n, v)\<in>set pd. lib n \<noteq> Some Other) \<longrightarrow> (\<exists>results. fst ?b = Inr results)"
    using bulk_returns[of pd lib rem r chans s] by blast
  have main: "case ?b of
      (Inl e, s1) \<Rightarrow> s1 = s
    | (Inr results, s1) \<Rightarrow>
        attempts s1 = attempts s + length chans \<and>
        (\<forall>j<length chans.
           (\<forall>j'. j < j' \<and> j' < length chans \<longrightarrow>
                 channel_name (chans ! j') \<noteq> channel_name (chans ! j)) \<longrightarrow>
           results (channel_name (chans ! j)) = Some (status (rem (attempts s + j)))) \<and>
        (distinct (map channel_id chans) \<longrightarrow>
           (\<forall>j<length chans.
              (if rem (attempts s + j) = Accepted
               then new_overwrites lib r pd (store s (channel_id (chans ! j)))
               else Inr (store s (channel_id (chans ! j)))) =
              Inr (store s1 (channel_id (chans ! j))))) \<and>
        (\<exists>original.
           last_operation s1 = Some (BulkRoleToChannel r chans original pd) \<and>
           (\<forall>c\<in>set chans. original (channel_id c) = Some (store s (channel_id c)))) \<and>
        (fst (fst (rollback_last_operation rem s1)) \<longrightarrow>
           (\<forall>c\<in>set chans.
              store (snd (rollback_last_operation rem s1)) (channel_id c) =
                store s (channel_id c))) \<and>
        (distinct (map channel_id chans) \<longrightarrow>
           (\<forall>k\<le>length chans.
              (\<forall>j<k. rem (attempts s1 + j) = Accepted) \<longrightarrow>
              (\<forall>j<k. store (snd (rollback_last_operation rem s1)) (channel_id (chans ! j)) =
                        store s (channel_id (chans ! j)))))"
  proof (cases "fst ?b")
    case (Inl e)
    have "?b = (Inl e, s)" by (simp add: prod_eq_iff Inl bulk_raised[OF Inl])
    then show ?thesis by simp
  next
    case (Inr res)
    note l = bulk_returned(1)[OF Inr]
    note s1 = bulk_returned(2)[OF Inr]
    have clean: "\<forall>(n, v)\<in>set pd. lib n \<noteq> Some Other" if "chans \<noteq> []"
      using bulk_loop_returned[OF l that] .
    have 1: "attempts ?s1 = attempts s + length chans"
    proof (cases "chans = []")
      case True
      with s1 show ?thesis by simp
    next
      case False
      then show ?thesis by (simp add: s1 bulk_loop_attempts[OF clean])
    qed
    have 2: "\<forall>j<length chans.
           (\<forall>j'. j < j' \<and> j' < length chans \<longrightarrow>
                 channel_name (chans ! j') \<noteq> channel_name (chans ! j)) \<longrightarrow>
           res (channel_name (chans ! j)) = Some (status (rem (attempts s + j)))"
    proof (intro allI impI)
      fix j assume j: "j < length chans"
        and later: "\<forall>j'. j < j' \<and> j' < length chans \<longrightarrow>
                 channel_name (chans ! j') \<noteq> channel_name (chans ! j)"
      from j have "chans \<noteq> []" by auto
      from bulk_loop_results[OF clean[OF this] j later l]
      show "res (channel_name (chans ! j)) = Some (status (rem (attempts s + j)))" .
    qed
    have 3: "distinct (map channel_id chans) \<longrightarrow>
           (\<forall>j<length chans.
              (if rem (attempts s + j) = Accepted
               then new_overwrites lib r pd (store s (channel_id (chans ! j)))
               else Inr (store s (channel_id (chans ! j)))) =
              Inr (store ?s1 (channel_id (chans ! j))))"
    proof (intro allI impI)
      fix j assume d: "distinct (map channel_id chans)" and j: "j < length chans"
      from j have "chans \<noteq> []" by auto
      from bulk_loop_store[OF clean[OF this] d j, where rem = rem and r = r
          and results = "\<lambda>k. None" and s = s]
      show "(if rem (attempts s + j) = Accepted
               then new_overwrites lib r pd (store s (channel_id (chans ! j)))
               else Inr (store s (channel_id (chans ! j)))) =
              Inr (store ?s1 (channel_id (chans ! j)))"
        by (simp add: s1)
    qed
    have lo: "last_operation ?s1 = Some ?operation" by (simp add: s1)
    have cap: "\<forall>c\<in>set chans. capture chans s (channel_id c) = Some (store s (channel_id c))"
      by (simp add: capture_apply)
    have 4: "\<exists>original.
           last_operation ?s1 = Some (BulkRoleToChannel r chans original pd) \<and>
           (\<forall>c\<in>set chans. original (channel_id c) = Some (store s (channel_id c)))"
      using lo cap by blast
    have 5: "fst (fst (rollback_last_operation rem ?s1)) \<longrightarrow>
           (\<forall>c\<in>set chans.
              store (snd (rollback_last_operation rem ?s1)) (channel_id c) =
                store s (channel_id c))"
    proof
      assume ok: "fst (fst (rollback_last_operation rem ?s1))"
      then have acc: "fst (restore rem (capture chans s) chans ?s1) = Accepted"
        by (simp add: rollback_ok[OF lo])
      have "store (snd (restore rem (capture chans s) chans ?s1)) = store s"
        by (rule restore_captured[OF acc]) (simp add: s1 bulk_loop_store_other)
      then show "\<forall>c\<in>set chans.
              store (snd (rollback_last_operation rem ?s1)) (channel_id c) =
                store s (channel_id c)"
        by (simp add: rollback_store[OF lo])
    qed
    have 6: "distinct (map channel_id chans) \<longrightarrow>
           (\<forall>k\<le>length chans.
              (\<forall>j<k. rem (attempts ?s1 + j) = Accepted) \<longrightarrow>
              (\<forall>j<k. store (snd (rollback_last_operation rem ?s1)) (channel_id (chans ! j)) =
                        store s (channel_id (chans ! j))))"
    proof (intro allI impI)
      fix k j
      assume d: "distinct (map channel_id chans)" and k: "k \<le> length chans"
        and acc: "\<forall>j<k. rem (attempts ?s1 + j) = Accepted" and j: "j < k"
      from restore_prefix[OF d cap k acc j]
      show "store (snd (rollback_last_operation rem ?s1)) (channel_id (chans ! j)) =
              store s (channel_id (chans ! j))"
        by (simp add: rollback_store[OF lo])
    qed
    have "?b = (Inr res, ?s1)" by (simp add: prod_eq_iff Inr)
    then have "(case ?b of (Inl e, s1) \<Rightarrow> s1 = s | (Inr results, s1) \<Rightarrow> P results s1) =
               P res ?s1" for P
      by (simp add: split_beta Inr)
    with 1 2 3 4 5 6 show ?thesis by (simp only:)
  qed
  from ret main show ?thesis by (rule conjI)
qed

section \<open>Outcomes of rollback\<close>

lemma undo_accepted:
  "fst (undo rem operation s) = Accepted \<Longrightarrow>
   \<forall>n. attempts s \<le> n \<and> n < attempts (snd (undo rem operation s)) \<longrightarrow> rem n = Accepted"
proof (cases operation)
  case (CopyPermissions source target original)
  assume "fst (undo rem operation s) = Accepted"
  with CopyPermissions show ?thesis by (auto simp: less_Suc_eq_le)
qed (use restore_accepted in auto)

lemma undo_rejected:
  "fst (undo rem operation s) = DiscordException e \<Longrightarrow>
   attempts s < attempts (snd (undo rem operation s)) \<and>
   rem (attempts (snd (undo rem operation s)) - 1) = DiscordException e"
  by (cases operation) (use restore_rejected in auto)

text \<open>
  C4. With no recorded operation, rollback changes nothing, returns \<^verbatim>\<open>False\<close> and prints
  its own notice. With a recorded operation, it returns \<^verbatim>\<open>True\<close> only when every write it
  issued was accepted, and then the slot is cleared and any further rollback is the no-op;
  it returns \<^verbatim>\<open>False\<close> when its last write was rejected, and then the recorded operation is
  still in the slot.
\<close>

theorem rollback_outcomes:
  "(last_operation s = None \<longrightarrow>
      rollback_last_operation rem s =
        ((False, ''[yellow]No operation to rollback![/yellow]''), s)) \<and>
   (last_operation s = Some operation \<longrightarrow>
      (case rollback_last_operation rem s of
         ((ok, line), s') \<Rightarrow>
           (ok \<longrightarrow>
              last_operation s' = None \<and> line = ''[green]Rollback successful![/green]'' \<and>
              (\<forall>n. attempts s \<le> n \<and> n < attempts s' \<longrightarrow> rem n = Accepted) \<and>
              (\<forall>rem'. rollback_last_operation rem' s' =
                 ((False, ''[yellow]No operation to rollback![/yellow]''), s'))) \<and>
           (\<not> ok \<longrightarrow>
              last_operation s' = Some operation \<and> attempts s < attempts s' \<and>
              (\<exists>e. rem (attempts s' - 1) = DiscordException e \<and>
                   line = ''[red]Rollback failed: '' @ e @ ''[/red]''))))"
proof (intro conjI impI)
  assume "last_operation s = None"
  then show "rollback_last_operation rem s =
        ((False, ''[yellow]No operation to rollback![/yellow]''), s)"
    by (rule rollback_none)
next
  assume lo: "last_operation s = Some operation"
  let ?r = "rollback_last_operation rem s"
  have good: "fst (fst ?r) \<longrightarrow>
              last_operation (snd ?r) = None \<and>
              snd (fst ?r) = ''[green]Rollback successful![/green]'' \<and>
              (\<forall>n. attempts s \<le> n \<and> n < attempts (snd ?r) \<longrightarrow> rem n = Accepted) \<and>
              (\<forall>rem'. rollback_last_operation rem' (snd ?r) =
                 ((False, ''[yellow]No operation to rollback![/yellow]''), snd ?r))"
  proof
    assume "fst (fst ?r)"
    then have acc: "fst (undo rem operation s) = Accepted" by (simp add: rollback_ok[OF lo])
    have cleared: "last_operation (snd ?r) = None"
      by (simp add: rollback_last_operation_after[OF lo] acc)
    show "last_operation (snd ?r) = None \<and>
              snd (fst ?r) = ''[green]Rollback successful![/green]'' \<and>
              (\<forall>n. attempts s \<le> n \<and> n < attempts (snd ?r) \<longrightarrow> rem n = Accepted) \<and>
              (\<forall>rem'. rollback_last_operation rem' (snd ?r) =
                 ((False, ''[yellow]No operation to rollback![/yellow]''), snd ?r))"
      using cleared undo_accepted[OF acc]
      by (simp add: rollback_line[OF lo] acc rollback_attempts[OF lo] rollback_none)
  qed
  have bad: "\<not> fst (fst ?r) \<longrightarrow>
              last_operation (snd ?r) = Some operation \<and> attempts s < attempts (snd ?r) \<and>
              (\<exists>e. rem (attempts (snd ?r) - 1) = DiscordException e \<and>
                   snd (fst ?r) = ''[red]Rollback failed: '' @ e @ ''[/red]'')"
  proof
    assume "\<not> fst (fst ?r)"
    then obtain e where rej: "fst (undo rem operation s) = DiscordException e"
      by (cases "fst (undo rem operation s)") (auto simp: rollback_ok[OF lo])
    show "last_operation (snd ?r) = Some operation \<and> attempts s < attempts (snd ?r) \<and>
              (\<exists>e. rem (attempts (snd ?r) - 1) = DiscordException e \<and>
                   snd (fst ?r) = ''[red]Rollback failed: '' @ e @ ''[/red]'')"
      using undo_rejected[OF rej]
      by (simp add: rollback_last_operation_after[OF lo] rej rollback_attempts[OF lo]
            rollback_line[OF lo])
  qed
  from good bad show "case rollback_last_operation rem s of
         ((ok, line), s') \<Rightarrow>
           (ok \<longrightarrow>
              last_operation s' = None \<and> line = ''[green]Rollback successful![/green]'' \<and>
              (\<forall>n. attempts s \<le> n \<and> n < attempts s' \<longrightarrow> rem n = Accepted) \<and>
              (\<forall>rem'. rollback_last_operation rem' s' =
                 ((False, ''[yellow]No operation to rollback![/yellow]''), s'))) \<and>
           (\<not> ok \<longrightarrow>
              last_operation s' = Some operation \<and> attempts s < attempts s' \<and>
              (\<exists>e. rem (attempts s' - 1) = DiscordException e \<and>
                   line = ''[red]Rollback failed: '' @ e @ ''[/red]''))"
    by (simp only: split_beta)
qed



section \<open>Concrete runs\<close>

lemma accept_all_rollback:
  "last_operation s = Some operation \<Longrightarrow> fst (fst (rollback_last_operation accept_all s))"
proof -
  assume lo: "last_operation s = Some operation"
  have "fst (undo accept_all operation s) = Accepted"
  proof (cases "fst (undo accept_all operation s)")
    case Accepted
    then show ?thesis .
  next
    case (DiscordException e)
    from undo_rejected[OF DiscordException] show ?thesis by (simp add: accept_all_def)
  qed
  then show ?thesis by (simp add: rollback_ok[OF lo])
qed

lemma sample_matches:
  "matching_roles sample_guild ''mod'' = [moderator]"
  "matching_channels sample_guild ''MOD'' = [mod_chat]"
  "matching_roles sample_guild ''admin'' = []"
  by code_simp+

lemma sample_clean: "\<forall>(n, v)\<in>set [(''send_messages'', True)]. sample_lib n \<noteq> Some Other"
  by (simp add: sample_lib_def permissions_def)

lemma sample_new_overwrites:
  "new_overwrites sample_lib moderator [(''send_messages'', True)] [] =
     Inr [(1, PermissionOverwrite(''send_messages'' \<mapsto> True))]"
  by (simp add: new_overwrites_def compute_new_overwrite_def set_permissions_def hasattr_def
        setattr_def sample_lib_def permissions_def moderator_def)


text \<open>
  The three flows on the sample guild with a remote that accepts every write; the copy did
  change the target before the rollback.
\<close>

theorem rollback_restores_store_witness:
  "store (snd (rollback_last_operation accept_all
          (snd (bulk_role_to_channel_permissions sample_lib accept_all moderator
                  [general, mod_chat] [(''send_messages'', True)] sample_state)))) =
     store sample_state \<and>
   store (snd (rollback_last_operation accept_all
          (snd (pattern_match_permissions sample_lib accept_all sample_guild ''mod'' ''MOD''
                  [(''send_messages'', True)] sample_state)))) =
     store sample_state \<and>
   store (snd (rollback_last_operation accept_all
          (snd (copy_permissions accept_all general mod_chat sample_state)))) =
     store sample_state \<and>
   store (snd (copy_permissions accept_all general mod_chat sample_state)) 11 \<noteq>
     store sample_state 11"
proof -
  let ?pd = "[(''send_messages'', True)]"
  let ?b = "bulk_role_to_channel_permissions sample_lib accept_all moderator
              [general, mod_chat] ?pd sample_state"
  let ?p = "pattern_match_permissions sample_lib accept_all sample_guild ''mod'' ''MOD''
              ?pd sample_state"
  note th = rollback_restores_store[where rem = accept_all and lib = sample_lib
      and r = moderator and chans = "[general, mod_chat]" and pd = ?pd and s = sample_state
      and g = sample_guild and rp = "''mod''" and cp = "''MOD''" and source = general
      and target = mod_chat]
  from bulk_returns[OF sample_clean] obtain res where rb: "fst ?b = Inr res" by blast
  from pattern_returns[OF sample_clean] obtain res' where rp: "fst (fst ?p) = Inr res'"
    by blast
  have 1: "fst (fst (rollback_last_operation accept_all (snd ?b)))"
    by (rule accept_all_rollback) (simp add: bulk_returned(2)[OF rb])
  have m: "matching_roles sample_guild ''mod'' \<noteq> []" "matching_channels sample_guild ''MOD'' \<noteq> []"
    by (simp_all add: sample_matches)
  have 2: "fst (fst (rollback_last_operation accept_all (snd ?p)))"
    by (rule accept_all_rollback) (simp add: pattern_returned[OF m rp])
  have 3: "fst (copy_permissions accept_all general mod_chat sample_state) = ''Success''"
    by (simp add: copy_fst status_def accept_all_def)
  have 4: "fst (fst (rollback_last_operation accept_all
          (snd (copy_permissions accept_all general mod_chat sample_state))))"
    by (rule accept_all_rollback) (simp add: copy_accepted accept_all_def)
  have 5: "store (snd (copy_permissions accept_all general mod_chat sample_state)) 11 \<noteq>
     store sample_state 11"
    by (simp add: copy_accepted accept_all_def sample_state_def general_def mod_chat_def)
  from th rb 1 have a: "store (snd (rollback_last_operation accept_all (snd ?b))) =
     store sample_state" by blast
  from th m rp 2 have b: "store (snd (rollback_last_operation accept_all (snd ?p))) =
     store sample_state" by blast
  from th 3 4 have c: "store (snd (rollback_last_operation accept_all
          (snd (copy_permissions accept_all general mod_chat sample_state)))) =
     store sample_state" by blast
  from a b c 5 show ?thesis by blast
qed

text \<open>
  C3, as stated, fails on a list with two channels of one name: the write to the first is
  rejected and leaves it unchanged, the write to the second is accepted, and the single
  entry of the returned map under that name says \<^verbatim>\<open>Success\<close>.
\<close>

theorem bulk_same_name_status_lost:
  "channel_name general = channel_name general_voice \<and>
   reject_first (attempts sample_state) = DiscordException ''403 Forbidden'' \<and>
   store (snd (bulk_role_to_channel_permissions sample_lib reject_first moderator
                 [general, general_voice] [(''send_messages'', True)] sample_state)) 10 =
     store sample_state 10 \<and>
   (case fst (bulk_role_to_channel_permissions sample_lib reject_first moderator
          [general, general_voice] [(''send_messages'', True)] sample_state) of
      Inl e \<Rightarrow> None
    | Inr results \<Rightarrow> results ''general'') = Some ''Success''"
proof -
  let ?pd = "[(''send_messages'', True)]"
  let ?chans = "[general, general_voice]"
  let ?b = "bulk_role_to_channel_permissions sample_lib reject_first moderator
              ?chans ?pd sample_state"
  from bulk_returns[OF sample_clean] obtain res where ret: "fst ?b = Inr res" by blast
  note l = bulk_returned(1)[OF ret]
  note s1 = bulk_returned(2)[OF ret]
  have d: "distinct (map channel_id ?chans)" by (simp add: general_def general_voice_def)
  from bulk_loop_results[OF sample_clean _ _ l, of 1]
  have r: "res ''general'' = Some ''Success''"
    by (simp add: general_voice_def reject_first_def sample_state_def status_def
          del: bulk_loop.simps)
  have rej: "reject_first (attempts sample_state + 0) \<noteq> Accepted"
    by (simp add: reject_first_def sample_state_def)
  from bulk_loop_store[OF sample_clean d, where j = 0 and rem = reject_first
      and r = moderator and results = "\<lambda>k. None" and s = sample_state] rej
  have "store sample_state (channel_id general) =
          store (snd (bulk_loop sample_lib reject_first moderator ?pd ?chans (\<lambda>k. None)
                        sample_state)) (channel_id general)"
    by (simp del: bulk_loop.simps)
  moreover have "channel_id general = 10" by (simp add: general_def)
  ultimately have st: "store (snd ?b) 10 = store sample_state 10"
    by (simp add: s1 del: bulk_loop.simps)
  have n: "channel_name general = channel_name general_voice"
    by (simp add: general_def general_voice_def)
  have f: "reject_first (attempts sample_state) = DiscordException ''403 Forbidden''"
    by (simp add: reject_first_def sample_state_def)
  from n f st r ret show ?thesis by simp
qed


text \<open>
  Three channels, the write to the second rejected: the first and third are reported as
  successes, the second as a failure, the recorded operation holds the prior overwrites of
  all three, and the rollback that follows (all of its writes accepted) returns \<^verbatim>\<open>True\<close> and
  leaves the three channels as they were before the batch.
\<close>

theorem bulk_partial_failure_witness:
  "(case fst (bulk_role_to_channel_permissions sample_lib reject_second moderator
          [general, mod_chat, announcements] [(''send_messages'', True)] sample_state) of
      Inl e \<Rightarrow> None | Inr results \<Rightarrow> results ''general'') = Some ''Success'' \<and>
   (case fst (bulk_role_to_channel_permissions sample_lib reject_second moderator
          [general, mod_chat, announcements] [(''send_messages'', True)] sample_state) of
      Inl e \<Rightarrow> None | Inr results \<Rightarrow> results ''mod-chat'') =
     Some ''Failed: 403 Forbidden'' \<and>
   (case fst (bulk_role_to_channel_permissions sample_lib reject_second moderator
          [general, mod_chat, announcements] [(''send_messages'', True)] sample_state) of
      Inl e \<Rightarrow> None | Inr results \<Rightarrow> results ''announcements'') = Some ''Success'' \<and>
   attempts (snd (bulk_role_to_channel_permissions sample_lib reject_second moderator
          [general, mod_chat, announcements] [(''send_messages'', True)] sample_state)) = 3 \<and>
   store (snd (bulk_role_to_channel_permissions sample_lib reject_second moderator
          [general, mod_chat, announcements] [(''send_messages'', True)] sample_state)) 11 = [] \<and>
   store (snd (bulk_role_to_channel_permissions sample_lib reject_second moderator
          [general, mod_chat, announcements] [(''send_messages'', True)] sample_state)) 12 =
     [(1, PermissionOverwrite(''send_messages'' \<mapsto> True))] \<and>
   (\<exists>original.
      last_operation (snd (bulk_role_to_channel_permissions sample_lib reject_second moderator
          [general, mod_chat, announcements] [(''send_messages'', True)] sample_state)) =
        Some (BulkRoleToChannel moderator [general, mod_chat, announcements] original
                [(''send_messages'', True)]) \<and>
      original 10 = Some (store sample_state 10) \<and> original 11 = Some [] \<and>
      original 12 = Some []) \<and>
   fst (fst (rollback_last_operation reject_second
     (snd (bulk_role_to_channel_permissions sample_lib reject_second moderator
          [general, mod_chat, announcements] [(''send_messages'', True)] sample_state)))) \<and>
   store (snd (rollback_last_operation reject_second
     (snd (bulk_role_to_channel_permissions sample_lib reject_second moderator
          [general, mod_chat, announcements] [(''send_messages'', True)] sample_state)))) 10 =
     store sample_state 10 \<and>
   store (snd (rollback_last_operation reject_second
     (snd (bulk_role_to_channel_permissions sample_lib reject_second moderator
          [general, mod_chat, announcements] [(''send_messages'', True)] sample_state)))) 12 =
     []"
proof -
  let ?chans = "[general, mod_chat, announcements]"
  let ?pd = "[(''send_messages'', True)]"
  let ?b = "bulk_role_to_channel_permissions sample_lib reject_second moderator
          ?chans ?pd sample_state"
  note th = bulk_partial_failure[where lib = sample_lib and rem = reject_second
      and r = moderator and chans = ?chans and pd = ?pd and s = sample_state]
  from th sample_clean obtain res where ret: "fst ?b = Inr res" by blast
  then obtain s1 where B: "?b = (Inr res, s1)" by (cases ?b) auto
  note th' = th[THEN conjunct2, unfolded B prod.case sum.case]
  have names: "\<forall>j'. j < j' \<and> j' < length ?chans \<longrightarrow>
                 channel_name (?chans ! j') \<noteq> channel_name (?chans ! j)" if "j < 3" for j
    using that
    by (auto simp: less_Suc_eq numeral_3_eq_3 general_def mod_chat_def announcements_def)
  have ids: "distinct (map channel_id ?chans)"
    by (simp add: general_def mod_chat_def announcements_def)
  from th' have res: "j < length ?chans \<Longrightarrow>
      (\<forall>j'. j < j' \<and> j' < length ?chans \<longrightarrow>
                 channel_name (?chans ! j') \<noteq> channel_name (?chans ! j)) \<Longrightarrow>
      res (channel_name (?chans ! j)) =
        Some (status (reject_second (attempts sample_state + j)))" for j
    by blast
  from th' ids have st: "j < length ?chans \<Longrightarrow>
      (if reject_second (attempts sample_state + j) = Accepted
       then new_overwrites sample_lib moderator ?pd
              (store sample_state (channel_id (?chans ! j)))
       else Inr (store sample_state (channel_id (?chans ! j)))) =
      Inr (store s1 (channel_id (?chans ! j)))" for j
    by blast
  from th' have at: "attempts s1 = attempts sample_state + length ?chans" by blast
  from th' obtain original where
    lo: "last_operation s1 = Some (BulkRoleToChannel moderator ?chans original ?pd)"
    and pre: "\<forall>c\<in>set ?chans. original (channel_id c) = Some (store sample_state (channel_id c))"
    by blast
  from th' have rb: "fst (fst (rollback_last_operation reject_second s1)) \<Longrightarrow>
      \<forall>c\<in>set ?chans. store (snd (rollback_last_operation reject_second s1)) (channel_id c) =
          store sample_state (channel_id c)"
    by blast
  have r0: "res ''general'' = Some ''Success''"
    using res[of 0, OF _ names[of 0]]
    by (simp add: general_def reject_second_def sample_state_def status_def)
  have r1: "res ''mod-chat'' = Some ''Failed: 403 Forbidden''"
    using res[of 1, OF _ names[of 1]]
    by (simp add: mod_chat_def reject_second_def sample_state_def status_def)
  have r2: "res ''announcements'' = Some ''Success''"
    using res[of 2, OF _ names[of 2]]
    by (simp add: announcements_def reject_second_def sample_state_def status_def)
  have s11: "store s1 11 = []"
    using st[of 1] by (simp add: mod_chat_def reject_second_def sample_state_def)
  have s12: "store s1 12 = [(1, PermissionOverwrite(''send_messages'' \<mapsto> True))]"
    using st[of 2]
    by (simp add: announcements_def reject_second_def sample_state_def sample_new_overwrites)
  have p: "original 10 = Some (store sample_state 10) \<and> original 11 = Some [] \<and>
           original 12 = Some []"
    using pre by (simp add: general_def mod_chat_def announcements_def sample_state_def)
  from at have a: "attempts s1 = 3" by (simp add: sample_state_def)
  let ?operation = "BulkRoleToChannel moderator ?chans original ?pd"
  have acc: "fst (undo reject_second ?operation s1) = Accepted"
  proof (cases "fst (undo reject_second ?operation s1)")
    case Accepted
    then show ?thesis .
  next
    case (DiscordException e)
    from undo_rejected[OF DiscordException] a
    have "3 < attempts (snd (undo reject_second ?operation s1))"
      and "reject_second (attempts (snd (undo reject_second ?operation s1)) - 1) \<noteq> Accepted"
      by simp_all
    then show ?thesis by (simp add: reject_second_def del: undo.simps split: if_splits)
  qed
  then have ok: "fst (fst (rollback_last_operation reject_second s1))"
    by (simp only: rollback_ok[OF lo])
  from rb[OF ok] have restored:
    "store (snd (rollback_last_operation reject_second s1)) 10 = store sample_state 10"
    "store (snd (rollback_last_operation reject_second s1)) 12 = []"
    by (simp_all add: general_def announcements_def sample_state_def)
  from r0 r1 r2 a s11 s12 lo p ok restored show ?thesis by (simp add: B)
qed

text \<open>
  Rollback with nothing recorded, after an accepted copy (twice), and with its write
  rejected.
\<close>

theorem rollback_outcomes_witness:
  "rollback_last_operation accept_all sample_state =
     ((False, ''[yellow]No operation to rollback![/yellow]''), sample_state) \<and>
   fst (rollback_last_operation accept_all
          (snd (copy_permissions accept_all general mod_chat sample_state))) =
     (True, ''[green]Rollback successful![/green]'') \<and>
   last_operation (snd (rollback_last_operation accept_all
          (snd (copy_permissions accept_all general mod_chat sample_state)))) = None \<and>
   fst (rollback_last_operation accept_all (snd (rollback_last_operation accept_all
          (snd (copy_permissions accept_all general mod_chat sample_state))))) =
     (False, ''[yellow]No operation to rollback![/yellow]'') \<and>
   fst (rollback_last_operation reject_second
          (snd (copy_permissions reject_second general mod_chat sample_state))) =
     (False, ''[red]Rollback failed: 403 Forbidden[/red]'') \<and>
   last_operation (snd (rollback_last_operation reject_second
          (snd (copy_permissions reject_second general mod_chat sample_state)))) =
     Some (CopyPermissions general mod_chat [])"
proof -
  let ?operation = "CopyPermissions general mod_chat []"
  let ?s1 = "snd (copy_permissions accept_all general mod_chat sample_state)"
  let ?s2 = "snd (copy_permissions reject_second general mod_chat sample_state)"
  have lo1: "last_operation ?s1 = Some ?operation"
    by (simp add: copy_accepted accept_all_def sample_state_def mod_chat_def)
  have lo2: "last_operation ?s2 = Some ?operation"
    by (simp add: copy_accepted reject_second_def sample_state_def mod_chat_def)
  have ok1: "fst (fst (rollback_last_operation accept_all ?s1))"
    by (rule accept_all_rollback[OF lo1])
  have at2: "attempts ?s2 = 1"
    by (simp add: copy_accepted reject_second_def sample_state_def)
  have bad2: "\<not> fst (fst (rollback_last_operation reject_second ?s2))"
    by (simp add: rollback_ok[OF lo2] at2 reject_second_def)
  have none: "last_operation sample_state = None" by (simp add: sample_state_def)
  note a = rollback_outcomes[where s = sample_state and rem = accept_all, THEN conjunct1,
      rule_format, OF none]
  note b = rollback_outcomes[where s = ?s1 and operation = ?operation and rem = accept_all,
      THEN conjunct2, rule_format, OF lo1, unfolded split_beta]
  note c = rollback_outcomes[where s = ?s2 and operation = ?operation and rem = reject_second,
      THEN conjunct2, rule_format, OF lo2, unfolded split_beta]
  from b ok1 have b1: "snd (fst (rollback_last_operation accept_all ?s1)) =
        ''[green]Rollback successful![/green]''"
    and b2: "last_operation (snd (rollback_last_operation accept_all ?s1)) = None"
    and b3: "rollback_last_operation accept_all (snd (rollback_last_operation accept_all ?s1)) =
        ((False, ''[yellow]No operation to rollback![/yellow]''),
         snd (rollback_last_operation accept_all ?s1))"
    by blast+
  from c bad2 obtain e where
    c1: "reject_second (attempts (snd (rollback_last_operation reject_second ?s2)) - 1) =
           DiscordException e"
    and c2: "snd (fst (rollback_last_operation reject_second ?s2)) =
        ''[red]Rollback failed: '' @ e @ ''[/red]''"
    and c3: "last_operation (snd (rollback_last_operation reject_second ?s2)) = Some ?operation"
    by blast
  from c1 have e: "e = ''403 Forbidden''" by (simp add: reject_second_def split: if_splits)
  from a ok1 b1 b2 b3 bad2 c2 c3 e show ?thesis by (simp add: prod_eq_iff)
qed

section \<open>Pattern match without a match\<close>



section \<open>Export\<close>

lemma overwrite_data_entry:
  "(p, v) \<in> set (overwrite_data lib ow) \<longleftrightarrow>
     p \<in> set permissions \<and> v \<noteq> PyNone \<and> getattr lib ow p = v"
  by (auto simp: overwrite_data_def Let_def hasattr_def getattr_def
        split: if_splits option.splits attribute.splits)

lemma overwrite_data_empty:
  "overwrite_data lib ow = [] \<longleftrightarrow> (\<forall>p\<in>set permissions. getattr lib ow p = PyNone)"
proof -
  have "xs = [] \<longleftrightarrow> (\<forall>p v. (p, v) \<notin> set xs)" for xs :: "(string \<times> py_value) list"
    by (induction xs) auto
  then have "overwrite_data lib ow = [] \<longleftrightarrow> (\<forall>p v. (p, v) \<notin> set (overwrite_data lib ow))" .
  also have "\<dots> \<longleftrightarrow> (\<forall>p\<in>set permissions. getattr lib ow p = PyNone)"
    by (auto simp: overwrite_data_entry)
  finally show ?thesis .
qed

lemma export_overwrites_filter:
  "export_overwrites lib m =
     map (\<lambda>(rid, ow). (rid, overwrite_data lib ow))
       (filter (\<lambda>(rid, ow). overwrite_data lib ow \<noteq> []) m)"
  by (induction m) (auto simp: export_overwrites_def Let_def)

lemma export_config_channels:
  "export_config lib (Some g) now s = Some (Inr cfg) \<Longrightarrow> cd \<in> set (cfg_channels cfg) \<Longrightarrow>
   cd_overwrites cd = export_overwrites lib (store s (cd_id cd))"
  by (auto simp: export_config_def Let_def split: if_splits)

text \<open>
  C7. In the exported configuration, the entries written for a role are exactly the catalog
  flags that its overwrite sets explicitly, each with its value, which is never \<^verbatim>\<open>null\<close>; a
  record that is written has at least one entry, and a role whose overwrite sets no catalog
  flag does not appear among the channel's serialized overwrites.
\<close>

theorem export_only_explicit_flags:
  "(export_config lib (Some g) now s = Some (Inr cfg) \<and> cd \<in> set (cfg_channels cfg) \<and>
    (rid, d) \<in> set (cd_overwrites cd) \<longrightarrow>
      d \<noteq> [] \<and>
      (\<exists>ow. (rid, ow) \<in> set (store s (cd_id cd)) \<and>
            (\<forall>p v. (p, v) \<in> set d \<longleftrightarrow>
                    p \<in> set permissions \<and> v \<noteq> PyNone \<and> getattr lib ow p = v))) \<and>
   (export_config lib (Some g) now s = Some (Inr cfg) \<and> cd \<in> set (cfg_channels cfg) \<and>
    (rid, ow) \<in> set (store s (cd_id cd)) \<and> distinct (map fst (store s (cd_id cd))) \<and>
    (\<forall>p\<in>set permissions. getattr lib ow p = PyNone) \<longrightarrow>
      rid \<notin> fst ` set (cd_overwrites cd))"
proof (rule conjI; rule impI)
  assume a: "export_config lib (Some g) now s = Some (Inr cfg) \<and> cd \<in> set (cfg_channels cfg) \<and>
    (rid, d) \<in> set (cd_overwrites cd)"
  then have "(rid, d) \<in> set (export_overwrites lib (store s (cd_id cd)))"
    using export_config_channels[of lib g now s cfg cd] by simp
  then obtain ow where ow: "(rid, ow) \<in> set (store s (cd_id cd))"
    and d: "d = overwrite_data lib ow" and ne: "d \<noteq> []"
    by (auto simp: export_overwrites_filter)
  show "d \<noteq> [] \<and>
      (\<exists>ow. (rid, ow) \<in> set (store s (cd_id cd)) \<and>
            (\<forall>p v. (p, v) \<in> set d \<longleftrightarrow>
                    p \<in> set permissions \<and> v \<noteq> PyNone \<and> getattr lib ow p = v))"
    using ne ow d overwrite_data_entry[of _ _ lib ow] by blast
next
  assume a: "export_config lib (Some g) now s = Some (Inr cfg) \<and> cd \<in> set (cfg_channels cfg) \<and>
    (rid, ow) \<in> set (store s (cd_id cd)) \<and> distinct (map fst (store s (cd_id cd))) \<and>
    (\<forall>p\<in>set permissions. getattr lib ow p = PyNone)"
  then have eq: "cd_overwrites cd = export_overwrites lib (store s (cd_id cd))"
    using export_config_channels[of lib g now s cfg cd] by simp
  from a have empty: "overwrite_data lib ow = []" by (simp add: overwrite_data_empty)
  show "rid \<notin> fst ` set (cd_overwrites cd)"
  proof
    assume "rid \<in> fst ` set (cd_overwrites cd)"
    then obtain ow' where ow': "(rid, ow') \<in> set (store s (cd_id cd))"
      and ne: "overwrite_data lib ow' \<noteq> []"
      by (auto simp: eq export_overwrites_filter)
    from a ow' have "ow' = ow" by (meson eq_key_imp_eq_value)
    with ne empty show False by simp
  qed
qed

lemma catalog_not_other: "p \<in> set permissions \<Longrightarrow> sample_lib p \<noteq> Some Other"
  by (simp add: sample_lib_def)

lemma sample_export:
  "export_config sample_lib (Some sample_guild) ''2026-01-01T00:00:00'' export_state =
     Some (Inr sample_config)"
  by code_simp

text \<open>
  The export of a channel with one overwrite of three explicit entries and one overwrite
  without entries.
\<close>

theorem export_only_explicit_flags_witness:
  "export_config sample_lib (Some sample_guild) ''2026-01-01T00:00:00'' export_state =
     Some (Inr sample_config) \<and>
   general_data \<in> set (cfg_channels sample_config) \<and>
   cd_overwrites general_data =
     [(1, [(''view_channel'', PyBool True), (''send_messages'', PyBool False)])] \<and>
   (\<exists>ow. (1, ow) \<in> set (store export_state 10) \<and>
         getattr sample_lib ow ''view_channel'' = PyBool True \<and>
         getattr sample_lib ow ''send_messages'' = PyBool False) \<and>
   (2, PermissionOverwrite) \<in> set (store export_state 10) \<and>
   2 \<notin> fst ` set (cd_overwrites general_data)"
proof -
  note th = export_only_explicit_flags[where lib = sample_lib and g = sample_guild
      and now = "''2026-01-01T00:00:00''" and s = export_state and cfg = sample_config
      and cd = general_data]
  have cd: "general_data \<in> set (cfg_channels sample_config)"
    by (simp add: sample_config_def)
  have ovs: "cd_overwrites general_data =
     [(1, [(''view_channel'', PyBool True), (''send_messages'', PyBool False)])]"
    and id: "cd_id general_data = 10"
    by (simp_all add: general_data_def)
  have st: "store export_state 10 = sample_overwrites" by (simp add: export_state_def)
  have two: "(2, PermissionOverwrite) \<in> set (store export_state 10)"
    and dist: "distinct (map fst (store export_state 10))"
    by (simp_all add: st sample_overwrites_def)
  have inherit: "\<forall>p\<in>set permissions. getattr sample_lib PermissionOverwrite p = PyNone"
    by (simp add: getattr_def PermissionOverwrite_def catalog_not_other
          split: option.splits attribute.splits)
  from th[where rid = 1 and d = "[(''view_channel'', PyBool True), (''send_messages'', PyBool False)]",
      THEN conjunct1] sample_export cd ovs
  obtain ow where ow: "(1, ow) \<in> set (store export_state (cd_id general_data))"
    and iff: "\<forall>p v. (p, v) \<in> set [(''view_channel'', PyBool True), (''send_messages'', PyBool False)]
               \<longleftrightarrow> p \<in> set permissions \<and> v \<noteq> PyNone \<and> getattr sample_lib ow p = v"
    by auto
  from iff[rule_format, of "''view_channel''" "PyBool True"]
  have g1: "getattr sample_lib ow ''view_channel'' = PyBool True" by simp
  from iff[rule_format, of "''send_messages''" "PyBool False"]
  have g2: "getattr sample_lib ow ''send_messages'' = PyBool False" by simp
  from th[where rid = 2 and ow = PermissionOverwrite, THEN conjunct2] sample_export cd two dist
    inherit id
  have omitted: "2 \<notin> fst ` set (cd_overwrites general_data)" by simp
  from sample_export cd ovs ow g1 g2 two omitted id show ?thesis by auto
qed

section \<open>Export followed by import\<close>

text \<open>
  The entries written for an overwrite can be set again exactly when no catalog name is an
  attribute of the overwrite object other than a permission.
\<close>

lemma import_overwrite_data_returns:
  "(\<exists>ow'. import_overwrite lib (overwrite_data lib ow) = Inr ow') \<longleftrightarrow>
     (\<forall>p\<in>set permissions. lib p \<noteq> Some Other)"
proof
  assume "\<exists>ow'. import_overwrite lib (overwrite_data lib ow) = Inr ow'"
  then have all: "\<forall>(n, v)\<in>set (overwrite_data lib ow). lib n \<noteq> Some Other"
    unfolding import_overwrite_def set_attributes_returns by auto
  show "\<forall>p\<in>set permissions. lib p \<noteq> Some Other"
  proof
    fix p assume p: "p \<in> set permissions"
    show "lib p \<noteq> Some Other"
    proof
      assume other: "lib p = Some Other"
      then have "getattr lib ow p = PyObject" by (simp add: getattr_def)
      with p have "(p, PyObject) \<in> set (overwrite_data lib ow)"
        by (simp add: overwrite_data_entry)
      with all other show False by auto
    qed
  qed
next
  assume clean: "\<forall>p\<in>set permissions. lib p \<noteq> Some Other"
  have "\<forall>(n, v)\<in>set (overwrite_data lib ow).
          lib n \<noteq> Some Other \<and> (v = PyObject \<longrightarrow> lib n = None)"
  proof (clarify, rule conjI)
    fix n v assume nv: "(n, v) \<in> set (overwrite_data lib ow)"
    then have n: "n \<in> set permissions" and v: "getattr lib ow n = v"
      by (simp_all add: overwrite_data_entry)
    from clean n show "lib n \<noteq> Some Other" by blast
    then show "v = PyObject \<longrightarrow> lib n = None"
      using v by (auto simp: getattr_def split: option.splits attribute.splits)
  qed
  then show "\<exists>ow'. import_overwrite lib (overwrite_data lib ow) = Inr ow'"
    unfolding import_overwrite_def set_attributes_returns .
qed

lemma import_overwrite_data_entry:
  assumes ret: "import_overwrite lib (overwrite_data lib ow) = Inr ow'"
    and p: "p \<in> set permissions" and perm: "lib p = Some (Permission k)"
  shows "ow' k = ow k"
proof -
  let ?data = "overwrite_data lib ow"
  let ?hits = "filter (\<lambda>(n, v). lib n = Some (Permission k)) (rev ?data)"
  from set_attributes_entry[OF ret[unfolded import_overwrite_def], of k]
  have ow': "ow' k = (case ?hits of [] \<Rightarrow> PermissionOverwrite k
                      | (n, v) # _ \<Rightarrow> (case v of PyBool b \<Rightarrow> Some b | _ \<Rightarrow> None))" .
  have g: "getattr lib ow p = (case ow k of None \<Rightarrow> PyNone | Some b \<Rightarrow> PyBool b)"
    by (simp add: getattr_def perm)
  show ?thesis
  proof (cases ?hits)
    case Nil
    then have "\<forall>(n, v)\<in>set ?data. lib n \<noteq> Some (Permission k)"
      by (auto simp: filter_empty_conv)
    with perm have "(p, getattr lib ow p) \<notin> set ?data" by auto
    with p have "getattr lib ow p = PyNone" by (simp add: overwrite_data_entry)
    with g have "ow k = None" by (simp split: option.splits)
    with Nil ow' show ?thesis by (simp add: PermissionOverwrite_def)
  next
    case (Cons x rest)
    obtain n v where x: "x = (n, v)" by (cases x)
    from Cons x have "(n, v) \<in> set ?hits" by simp
    then have nv: "(n, v) \<in> set ?data" and n: "lib n = Some (Permission k)" by auto
    from nv have "v \<noteq> PyNone" and "getattr lib ow n = v"
      by (simp_all add: overwrite_data_entry)
    with n have "\<exists>b. ow k = Some b \<and> v = PyBool b"
      by (auto simp: getattr_def split: option.splits)
    with Cons x ow' show ?thesis by auto
  qed
qed

lemma getattr_import_overwrite_data:
  assumes ret: "import_overwrite lib (overwrite_data lib ow) = Inr ow'"
    and p: "p \<in> set permissions"
  shows "getattr lib ow' p = getattr lib ow p"
proof (cases "lib p")
  case None
  then show ?thesis by (simp add: getattr_def)
next
  case (Some a)
  show ?thesis
  proof (cases a)
    case (Permission k)
    with Some have perm: "lib p = Some (Permission k)" by simp
    from import_overwrite_data_entry[OF ret p perm] show ?thesis
      by (simp add: getattr_def perm)
  next
    case Other
    with Some show ?thesis by (simp add: getattr_def)
  qed
qed

lemma get_role_id: "get_role g rid = Some r \<Longrightarrow> role_id r = rid"
  by (auto simp: get_role_def find_Some_iff)

lemma import_roles_known:
  "distinct (map fst xs) \<Longrightarrow> fst ` set xs \<inter> fst ` set acc = {} \<Longrightarrow>
   \<forall>rid\<in>fst ` set xs. get_role g rid \<noteq> None \<Longrightarrow>
   \<forall>(rid, d)\<in>set xs. import_overwrite lib d = Inr (F d) \<Longrightarrow>
   import_roles lib g xs acc = Inr (acc @ map (\<lambda>(rid, d). (rid, F d)) xs)"
proof (induction xs arbitrary: acc)
  case Nil
  then show ?case by simp
next
  case (Cons x xs)
  obtain rid d where x: "x = (rid, d)" by (cases x)
  from Cons.prems x obtain r where r: "get_role g rid = Some r" by auto
  then have rid: "role_id r = rid" by (rule get_role_id)
  from Cons.prems x have fresh: "rid \<notin> fst ` set acc" by auto
  from Cons.prems(4) x have imp: "import_overwrite lib d = Inr (F d)" by simp
  have step: "AList.update rid (F d) acc = acc @ [(rid, F d)]"
    by (rule update_fresh[OF fresh])
  have "fst ` set xs \<inter> fst ` set (acc @ [(rid, F d)]) = {}"
    using Cons.prems x by auto
  moreover have "distinct (map fst xs)" "\<forall>rid\<in>fst ` set xs. get_role g rid \<noteq> None"
    "\<forall>(rid, d)\<in>set xs. import_overwrite lib d = Inr (F d)"
    using Cons.prems by auto
  ultimately show ?case
    using Cons.IH[of "acc @ [(rid, F d)]"]
    by (simp add: x r rid step imp)
qed

lemma export_keys_subset: "fst ` set (export_overwrites lib m) \<subseteq> fst ` set m"
  by (force simp: export_overwrites_filter)

lemma distinct_export: "distinct (map fst m) \<Longrightarrow> distinct (map fst (export_overwrites lib m))"
proof -
  assume d: "distinct (map fst m)"
  have "map fst (export_overwrites lib m) =
          map fst (filter (\<lambda>(rid, ow). overwrite_data lib ow \<noteq> []) m)"
    by (simp add: export_overwrites_filter split_beta comp_def)
  with d show ?thesis by (simp add: distinct_map_filter)
qed


lemma round_trip:
  assumes d: "distinct (map fst m)" and known: "\<forall>rid\<in>fst ` set m. get_role g rid \<noteq> None"
    and clean: "\<forall>p\<in>set permissions. lib p \<noteq> Some Other"
  shows "\<exists>F. (\<forall>ow. import_overwrite lib (overwrite_data lib ow) = Inr (F ow)) \<and>
           import_overwrites lib g (export_overwrites lib m) =
             Inr (map (\<lambda>(rid, ow). (rid, F ow))
                    (filter (\<lambda>(rid, ow). overwrite_data lib ow \<noteq> []) m))"
proof -
  define G where "G = (\<lambda>d. projr (import_overwrite lib d))"
  define F where "F = (\<lambda>ow. G (overwrite_data lib ow))"
  have F: "import_overwrite lib (overwrite_data lib ow) = Inr (F ow)" for ow
    using import_overwrite_data_returns[of lib ow] clean by (auto simp: F_def G_def)
  have k: "\<forall>rid\<in>fst ` set (export_overwrites lib m). get_role g rid \<noteq> None"
    using known export_keys_subset[of lib m] by blast
  have all: "\<forall>(rid, d)\<in>set (export_overwrites lib m). import_overwrite lib d = Inr (G d)"
    using F by (auto simp: export_overwrites_filter F_def)
  have "import_overwrites lib g (export_overwrites lib m) =
          Inr ([] @ map (\<lambda>(rid, d). (rid, G d)) (export_overwrites lib m))"
    unfolding import_overwrites_def
    by (rule import_roles_known[OF distinct_export[OF d] _ k all]) simp
  then have "import_overwrites lib g (export_overwrites lib m) =
             Inr (map (\<lambda>(rid, ow). (rid, F ow))
                    (filter (\<lambda>(rid, ow). overwrite_data lib ow \<noteq> []) m))"
    by (simp add: export_overwrites_filter split_beta comp_def F_def)
  with F show ?thesis by blast
qed

lemma round_trip_returned:
  assumes ret: "import_overwrites lib g (export_overwrites lib m) = Inr m'"
    and known: "\<forall>rid\<in>fst ` set m. get_role g rid \<noteq> None" and ne: "m \<noteq> []"
  shows "\<forall>p\<in>set permissions. lib p \<noteq> Some Other"
proof (rule ccontr)
  assume dirty: "\<not> (\<forall>p\<in>set permissions. lib p \<noteq> Some Other)"
  from ne obtain rid ow rest where m: "m = (rid, ow) # rest" by (cases m) auto
  from dirty obtain p where p: "p \<in> set permissions" and other: "lib p = Some Other" by blast
  then have "getattr lib ow p = PyObject" by (simp add: getattr_def)
  then have "getattr lib ow p \<noteq> PyNone" by simp
  with p have full: "overwrite_data lib ow \<noteq> []"
    unfolding overwrite_data_empty by blast
  from known m obtain r where r: "get_role g rid = Some r" by auto
  from dirty obtain e where e: "import_overwrite lib (overwrite_data lib ow) = Inl e"
    using import_overwrite_data_returns[of lib ow]
    by (cases "import_overwrite lib (overwrite_data lib ow)") auto
  have "import_overwrites lib g (export_overwrites lib m) = Inl e"
    by (simp add: import_overwrites_def export_overwrites_def m full r e)
  with ret show False by simp
qed

lemma map_of_filter_distinct_keys:
  "distinct (map fst m) \<Longrightarrow>
   map_of (filter Q m) k =
     (case map_of m k of None \<Rightarrow> None | Some v \<Rightarrow> if Q (k, v) then Some v else None)"
proof (induction m)
  case Nil
  then show ?case by simp
next
  case (Cons x m)
  obtain k' v' where x: "x = (k', v')" by (cases x)
  from Cons.prems x have fresh: "k' \<notin> fst ` set m" and d: "distinct (map fst m)" by auto
  from fresh have none: "map_of m k' = None" by (simp add: map_of_eq_None_iff)
  show ?case
    using Cons.IH[OF d] none by (auto simp: x)
qed


lemma sample_export_overwrites:
  "export_overwrites sample_lib sample_overwrites =
     [(1, [(''view_channel'', PyBool True), (''send_messages'', PyBool False)])]"
  by code_simp

lemma sample_round_trip:
  "import_overwrites sample_lib sample_guild (export_overwrites sample_lib sample_overwrites) =
     Inr [(1, PermissionOverwrite(''view_channel'' \<mapsto> True, ''send_messages'' \<mapsto> False))]"
  by (simp add: sample_export_overwrites import_overwrites_def get_role_def sample_guild_def
        moderator_def import_overwrite_def hasattr_def setattr_def sample_lib_def permissions_def)

text \<open>
  C8, as stated, fails: exporting the sample overwrites and importing the result into the
  same guild gives a map without role 2, whose overwrite has no entry, and without the
  allowed \<^verbatim>\<open>send_polls\<close> of role 1, a flag outside the catalog.
\<close>

theorem round_trip_loses_entries:
  "sample_overwrites =
     [(1, PermissionOverwrite(''view_channel'' \<mapsto> True, ''send_messages'' \<mapsto> False,
            ''send_polls'' \<mapsto> True)),
      (2, PermissionOverwrite)] \<and>
   get_role sample_guild 1 = Some moderator \<and> get_role sample_guild 2 = Some everyone \<and>
   import_overwrites sample_lib sample_guild (export_overwrites sample_lib sample_overwrites) =
     Inr [(1, PermissionOverwrite(''view_channel'' \<mapsto> True, ''send_messages'' \<mapsto> False))] \<and>
   import_overwrites sample_lib sample_guild (export_overwrites sample_lib sample_overwrites) \<noteq>
     Inr sample_overwrites \<and>
   getattr sample_lib
     (PermissionOverwrite(''view_channel'' \<mapsto> True, ''send_messages'' \<mapsto> False,
        ''send_polls'' \<mapsto> True)) ''send_polls'' = PyBool True \<and>
   getattr sample_lib
     (PermissionOverwrite(''view_channel'' \<mapsto> True, ''send_messages'' \<mapsto> False))
     ''send_polls'' = PyNone"
proof -
  have roles: "get_role sample_guild 1 = Some moderator" "get_role sample_guild 2 = Some everyone"
    by (simp_all add: get_role_def sample_guild_def moderator_def everyone_def)
  have ne: "import_overwrites sample_lib sample_guild
              (export_overwrites sample_lib sample_overwrites) \<noteq> Inr sample_overwrites"
    by (simp add: sample_round_trip) (simp add: sample_overwrites_def)
  have g: "getattr sample_lib
     (PermissionOverwrite(''view_channel'' \<mapsto> True, ''send_messages'' \<mapsto> False,
        ''send_polls'' \<mapsto> True)) ''send_polls'' = PyBool True"
    "getattr sample_lib
     (PermissionOverwrite(''view_channel'' \<mapsto> True, ''send_messages'' \<mapsto> False))
     ''send_polls'' = PyNone"
    by (simp_all add: getattr_def sample_lib_def PermissionOverwrite_def permissions_def)
  from roles ne g sample_round_trip show ?thesis by (simp add: sample_overwrites_def)
qed

text \<open>
  C8, amended. For an overwrite dictionary whose roles are all roles of the guild, export
  followed by import returns a dictionary when no catalog name is an attribute of the
  overwrite object other than a permission, and the dictionary it returns gives back, for
  every role and every catalog flag, the state the flag had: allow, deny or inherit. The
  roles of the result are the roles whose overwrite sets at least one catalog flag
  explicitly.
\<close>

theorem round_trip_catalog_flags:
  assumes d: "distinct (map fst m)"
    and known: "\<forall>rid\<in>fst ` set m. get_role g rid \<noteq> None"
    and p: "p \<in> set permissions"
  shows "((\<forall>q\<in>set permissions. lib q \<noteq> Some Other) \<longrightarrow>
            (\<exists>m'. import_overwrites lib g (export_overwrites lib m) = Inr m')) \<and>
         (\<forall>m'. import_overwrites lib g (export_overwrites lib m) = Inr m' \<longrightarrow>
            (case map_of m' rid of None \<Rightarrow> PyNone | Some ow \<Rightarrow> getattr lib ow p) =
            (case map_of m rid of None \<Rightarrow> PyNone | Some ow \<Rightarrow> getattr lib ow p) \<and>
            fst ` set m' =
              {rid. \<exists>ow. (rid, ow) \<in> set m \<and>
                         (\<exists>q\<in>set permissions. getattr lib ow q \<noteq> PyNone)})"
proof (intro conjI impI allI)
  assume "\<forall>q\<in>set permissions. lib q \<noteq> Some Other"
  from round_trip[OF d known this]
  show "\<exists>m'. import_overwrites lib g (export_overwrites lib m) = Inr m'" by blast
next
  fix m'
  assume ret: "import_overwrites lib g (export_overwrites lib m) = Inr m'"
  let ?Q = "\<lambda>(rid, ow). overwrite_data lib ow \<noteq> []"
  have "\<exists>F. (\<forall>ow. overwrite_data lib ow \<noteq> [] \<longrightarrow> getattr lib (F ow) p = getattr lib ow p) \<and>
             m' = map (\<lambda>(rid, ow). (rid, F ow)) (filter ?Q m)"
  proof (cases "m = []")
    case True
    with ret have "m' = []"
      by (simp add: import_overwrites_def export_overwrites_def)
    with True show ?thesis by (intro exI[of _ "\<lambda>ow. ow"]) simp
  next
    case False
    from round_trip_returned[OF ret known False]
    have clean: "\<forall>p\<in>set permissions. lib p \<noteq> Some Other" .
    from round_trip[OF d known clean] ret obtain F where
      F: "\<And>ow. import_overwrite lib (overwrite_data lib ow) = Inr (F ow)"
      and m': "m' = map (\<lambda>(rid, ow). (rid, F ow)) (filter ?Q m)"
      by auto
    have "getattr lib (F ow) p = getattr lib ow p" for ow
      by (rule getattr_import_overwrite_data[OF F p])
    with m' show ?thesis by blast
  qed
  then obtain F where
    F: "\<And>ow. overwrite_data lib ow \<noteq> [] \<Longrightarrow> getattr lib (F ow) p = getattr lib ow p"
    and rt: "m' = map (\<lambda>(rid, ow). (rid, F ow)) (filter ?Q m)"
    by blast
  have "map_of m' rid = map_option F (map_of (filter ?Q m) rid)"
    by (simp add: rt map_of_map)
  also have "\<dots> = (case map_of m rid of
                      None \<Rightarrow> None
                    | Some ow \<Rightarrow> if overwrite_data lib ow \<noteq> [] then Some (F ow) else None)"
    by (simp add: map_of_filter_distinct_keys[OF d] split: option.splits)
  finally have look: "map_of m' rid =
     (case map_of m rid of
        None \<Rightarrow> None
      | Some ow \<Rightarrow> if overwrite_data lib ow \<noteq> [] then Some (F ow) else None)" .
  show "(case map_of m' rid of None \<Rightarrow> PyNone | Some ow \<Rightarrow> getattr lib ow p) =
         (case map_of m rid of None \<Rightarrow> PyNone | Some ow \<Rightarrow> getattr lib ow p)"
  proof (cases "map_of m rid")
    case None
    then show ?thesis by (simp add: look)
  next
    case (Some ow)
    show ?thesis
    proof (cases "overwrite_data lib ow = []")
      case True
      then have "getattr lib ow p = PyNone" using p by (simp add: overwrite_data_empty)
      with True Some show ?thesis by (simp add: look)
    next
      case False
      with Some show ?thesis by (simp add: look F)
    qed
  qed
  show "fst ` set m' =
           {rid. \<exists>ow. (rid, ow) \<in> set m \<and> (\<exists>q\<in>set permissions. getattr lib ow q \<noteq> PyNone)}"
    by (force simp: rt overwrite_data_empty)
qed


text \<open>
  The sample overwrites: an allowed flag, an inherited flag, and the role without entries.
\<close>

theorem round_trip_catalog_flags_witness:
  "distinct (map fst sample_overwrites) \<and>
   get_role sample_guild 1 \<noteq> None \<and> get_role sample_guild 2 \<noteq> None \<and>
   ''view_channel'' \<in> set permissions \<and> ''connect'' \<in> set permissions \<and>
   import_overwrites sample_lib sample_guild (export_overwrites sample_lib sample_overwrites) =
     Inr [(1, PermissionOverwrite(''view_channel'' \<mapsto> True, ''send_messages'' \<mapsto> False))] \<and>
   (case map_of [(1, PermissionOverwrite(''view_channel'' \<mapsto> True,
                       ''send_messages'' \<mapsto> False))] (1::int) of
      None \<Rightarrow> PyNone | Some ow \<Rightarrow> getattr sample_lib ow ''view_channel'') = PyBool True \<and>
   (case map_of [(1, PermissionOverwrite(''view_channel'' \<mapsto> True,
                       ''send_messages'' \<mapsto> False))] (1::int) of
      None \<Rightarrow> PyNone | Some ow \<Rightarrow> getattr sample_lib ow ''connect'') = PyNone \<and>
   (case map_of [(1, PermissionOverwrite(''view_channel'' \<mapsto> True,
                       ''send_messages'' \<mapsto> False))] (2::int) of
      None \<Rightarrow> PyNone | Some ow \<Rightarrow> getattr sample_lib ow ''view_channel'') = PyNone"
proof -
  let ?m' = "[(1::int, PermissionOverwrite(''view_channel'' \<mapsto> True,
                         ''send_messages'' \<mapsto> False))]"
  have d: "distinct (map fst sample_overwrites)" by (simp add: sample_overwrites_def)
  have roles: "get_role sample_guild 1 \<noteq> None" "get_role sample_guild 2 \<noteq> None"
    by (simp_all add: get_role_def sample_guild_def moderator_def everyone_def)
  then have known: "\<forall>rid\<in>fst ` set sample_overwrites. get_role sample_guild rid \<noteq> None"
    by (simp add: sample_overwrites_def)
  have p: "''view_channel'' \<in> set permissions" and q: "''connect'' \<in> set permissions"
    by (simp_all add: permissions_def)
  note th = round_trip_catalog_flags[OF d known, where lib = sample_lib, THEN conjunct2,
      rule_format, OF _ sample_round_trip, THEN conjunct1]
  have v: "sample_lib ''view_channel'' = Some (Permission ''view_channel'')"
    "sample_lib ''connect'' = Some (Permission ''connect'')"
    by (simp_all add: sample_lib_def permissions_def)
  from th[OF p, of 1] have a: "(case map_of ?m' 1 of
      None \<Rightarrow> PyNone | Some ow \<Rightarrow> getattr sample_lib ow ''view_channel'') = PyBool True"
    by (simp add: sample_overwrites_def getattr_def v)
  from th[OF q, of 1] have b: "(case map_of ?m' 1 of
      None \<Rightarrow> PyNone | Some ow \<Rightarrow> getattr sample_lib ow ''connect'') = PyNone"
    by (simp add: sample_overwrites_def getattr_def v PermissionOverwrite_def)
  from th[OF p, of 2] have c: "(case map_of ?m' 2 of
      None \<Rightarrow> PyNone | Some ow \<Rightarrow> getattr sample_lib ow ''view_channel'') = PyNone"
    by (simp add: sample_overwrites_def getattr_def v PermissionOverwrite_def)
  from d roles p q a b c sample_round_trip show ?thesis by simp
qed

lemma find_by_distinct_key:
  "distinct (map f xs) \<Longrightarrow> x \<in> set xs \<Longrightarrow> find (\<lambda>y. f y = f x) xs = Some x"
  by (induction xs) (auto simp: image_iff)

text \<open>
  The writes an import schedules when it reads the export of the same guild: one for every
  channel, with the dictionary rebuilt from what the export wrote for it.
\<close>

lemma import_tasks_of_export:
  assumes ids: "distinct (map channel_id (channels g))"
    and ex: "export_config lib (Some g) now s = Some (Inr cfg)"
    and ret: "\<forall>c\<in>set (channels g).
                import_overwrites lib g (export_overwrites lib (store s (channel_id c))) =
                  Inr (F c)"
  shows "import_config lib str (Some g) (Parsed cfg) filename s' =
           ((map (\<lambda>c. (c, F c)) (channels g),
             [''[green]Configuration imported from '' @ filename @ ''[/green]'']),
            s'\<lparr>last_operation := Some (ImportConfig (capture (channels g) s') filename)\<rparr>)"
proof -
  have look: "get_channel g (channel_id c) = Some c" if "c \<in> set (channels g)" for c
    unfolding get_channel_def by (rule find_by_distinct_key[OF ids that])
  have loop: "set cs \<subseteq> set (channels g) \<Longrightarrow>
        import_channels lib g
          (map (\<lambda>c. \<lparr>cd_id = channel_id c, cd_name = channel_name c,
                      cd_type = channel_type c, cd_category_id = category_id c,
                      cd_overwrites = export_overwrites lib (store s (channel_id c))\<rparr>) cs)
          tasks =
        (None, tasks @ map (\<lambda>c. (c, F c)) cs)" for cs tasks
  proof (induction cs arbitrary: tasks)
    case Nil
    then show ?case by simp
  next
    case (Cons c cs)
    from Cons.prems have c: "c \<in> set (channels g)" and cs: "set cs \<subseteq> set (channels g)"
      by auto
    from ret c have r: "import_overwrites lib g (export_overwrites lib (store s (channel_id c))) =
                  Inr (F c)" by blast
    show ?case by (simp add: look[OF c] r Cons.IH[OF cs])
  qed
  from ex have cfg: "cfg_channels cfg =
      map (\<lambda>c. \<lparr>cd_id = channel_id c, cd_name = channel_name c,
                  cd_type = channel_type c, cd_category_id = category_id c,
                  cd_overwrites = export_overwrites lib (store s (channel_id c))\<rparr>) (channels g)"
    by (auto simp: export_config_def Let_def split: if_splits)
  show ?thesis
    by (simp add: import_config_def Let_def cfg loop[of "channels g" "[]"])
qed

section \<open>Rollback after an import\<close>

text \<open>
  The chain of lines 363-379 has no branch for the type \<^verbatim>\<open>import_config\<close>: with an import
  recorded, rollback writes nothing, reports success and clears the slot.
\<close>

lemma rollback_import_config:
  "last_operation s = Some (ImportConfig original filename) \<Longrightarrow>
   rollback_last_operation rem s =
     ((True, ''[green]Rollback successful![/green]''), s\<lparr>last_operation := None\<rparr>)"
  by (simp add: rollback_last_operation_def)

lemma sample_import:
  "import_config sample_lib str (Some sample_guild) (Parsed sample_config) ''backup.json''
     sample_state =
     (([(general, [(1, PermissionOverwrite(''view_channel'' \<mapsto> True,
                        ''send_messages'' \<mapsto> False))]),
        (mod_chat, []), (announcements, []), (general_voice, [])],
       [''[green]Configuration imported from backup.json[/green]'']),
      sample_state\<lparr>last_operation :=
        Some (ImportConfig (capture (channels sample_guild) sample_state) ''backup.json'')\<rparr>)"
  by (simp add: import_config_def sample_config_def general_data_def get_channel_def
        sample_guild_def general_def mod_chat_def announcements_def general_voice_def
        import_overwrites_def get_role_def moderator_def everyone_def import_overwrite_def
        hasattr_def setattr_def sample_lib_def permissions_def)


text \<open>
  The flows that record nothing: a pattern match without a match returns the state
  unchanged, and a copy whose write is rejected changes nothing but the count of calls. The
  recorded operation is the one stored before, and a rollback from either state does not
  print the notice of the no-op.
\<close>

lemma aborted_flows_keep_last_operation:
  "(matching_roles g rp = [] \<or> matching_channels g cp = [] \<longrightarrow>
      snd (pattern_match_permissions lib rem g rp cp pd s) = s) \<and>
   (fst (copy_permissions rem source target s) \<noteq> ''Success'' \<longrightarrow>
      snd (copy_permissions rem source target s) = s\<lparr>attempts := Suc (attempts s)\<rparr>) \<and>
   (last_operation s = Some operation \<longrightarrow>
      (\<forall>s'. s' = s \<or> s' = s\<lparr>attempts := Suc (attempts s)\<rparr> \<longrightarrow>
         snd (fst (rollback_last_operation rem s')) \<noteq>
           ''[yellow]No operation to rollback![/yellow]''))"
proof (intro conjI impI allI)
  assume "matching_roles g rp = [] \<or> matching_channels g cp = []"
  then show "snd (pattern_match_permissions lib rem g rp cp pd s) = s"
    by (simp add: pattern_abort)
next
  assume "fst (copy_permissions rem source target s) \<noteq> ''Success''"
  then obtain e where "rem (attempts s) = DiscordException e"
    by (cases "rem (attempts s)") (auto simp: copy_fst status_Success)
  then show "snd (copy_permissions rem source target s) = s\<lparr>attempts := Suc (attempts s)\<rparr>"
    by (rule copy_rejected)
next
  fix s'
  assume lo: "last_operation s = Some operation"
    and "s' = s \<or> s' = s\<lparr>attempts := Suc (attempts s)\<rparr>"
  then have lo': "last_operation s' = Some operation" by auto
  show "snd (fst (rollback_last_operation rem s')) \<noteq>
           ''[yellow]No operation to rollback![/yellow]''"
    by (simp add: rollback_line[OF lo'] split: option.splits outcome.splits)
qed

text \<open>
  C10 on a run of the program. An import is recorded and its writes are accepted; a pattern
  match whose role pattern matches no role follows and leaves the recorded import in place.
  The rollback that comes next does not report that there is nothing to roll back, but it
  does not undo the import either: it prints \<^verbatim>\<open>Rollback successful!\<close>, returns \<^verbatim>\<open>True\<close> and
  clears the slot, and the channel still has the imported overwrites, not the ones captured
  before the import.
\<close>

theorem rollback_after_import_restores_nothing:
  "(let imported = import_config sample_lib (\<lambda>e. ''error'') (Some sample_guild)
                     (Parsed sample_config) ''backup.json'' sample_state;
        s1 = run_tasks accept_all (fst (fst imported)) (snd imported);
        s2 = snd (pattern_match_permissions sample_lib accept_all sample_guild ''admin''
                    ''general'' [(''send_messages'', True)] s1);
        result = rollback_last_operation accept_all s2
    in matching_roles sample_guild ''admin'' = [] \<and>
       last_operation s1 =
         Some (ImportConfig (capture (channels sample_guild) sample_state) ''backup.json'') \<and>
       capture (channels sample_guild) sample_state 10 = Some (store sample_state 10) \<and>
       s2 = s1 \<and>
       store sample_state 10 = [(1, PermissionOverwrite(''view_channel'' \<mapsto> True))] \<and>
       store s1 10 = [(1, PermissionOverwrite(''view_channel'' \<mapsto> True,
                            ''send_messages'' \<mapsto> False))] \<and>
       fst result = (True, ''[green]Rollback successful![/green]'') \<and>
       last_operation (snd result) = None \<and>
       store (snd result) 10 = store s1 10 \<and>
       store (snd result) 10 \<noteq> store sample_state 10)"
proof -
  let ?imported = "import_config sample_lib (\<lambda>e. ''error'') (Some sample_guild)
                     (Parsed sample_config) ''backup.json'' sample_state"
  let ?s1 = "run_tasks accept_all (fst (fst ?imported)) (snd ?imported)"
  let ?s2 = "snd (pattern_match_permissions sample_lib accept_all sample_guild ''admin''
                    ''general'' [(''send_messages'', True)] ?s1)"
  let ?original = "capture (channels sample_guild) sample_state"
  have none: "matching_roles sample_guild ''admin'' = []" by (rule sample_matches(3))
  have lo: "last_operation ?s1 = Some (ImportConfig ?original ''backup.json'')"
    by (simp add: sample_import run_tasks_def)
  have cap: "?original 10 = Some (store sample_state 10)"
    by (simp add: capture_apply sample_guild_def general_def)
  have s2: "?s2 = ?s1" by (simp add: pattern_abort none)
  have before: "store sample_state 10 = [(1, PermissionOverwrite(''view_channel'' \<mapsto> True))]"
    by (simp add: sample_state_def)
  have after: "store ?s1 10 = [(1, PermissionOverwrite(''view_channel'' \<mapsto> True,
                            ''send_messages'' \<mapsto> False))]"
    by (simp add: sample_import run_tasks_def accept_all_def general_def mod_chat_def
          announcements_def general_voice_def)
  have rb: "rollback_last_operation accept_all ?s1 =
              ((True, ''[green]Rollback successful![/green]''), ?s1\<lparr>last_operation := None\<rparr>)"
    by (rule rollback_import_config[OF lo])
  have differ: "store ?s1 10 \<noteq> store sample_state 10"
  proof
    assume "store ?s1 10 = store sample_state 10"
    then have "PermissionOverwrite(''view_channel'' \<mapsto> True, ''send_messages'' \<mapsto> False) =
               PermissionOverwrite(''view_channel'' \<mapsto> True)"
      by (simp only: before after) simp
    then have "(PermissionOverwrite(''view_channel'' \<mapsto> True, ''send_messages'' \<mapsto> False))
                 ''send_messages'' =
               (PermissionOverwrite(''view_channel'' \<mapsto> True)) ''send_messages''"
      by (rule arg_cong)
    then show False by (simp add: PermissionOverwrite_def)
  qed
  from none lo cap s2 before after rb differ show ?thesis
    unfolding Let_def by (simp only: s2 rb fst_conv snd_conv) simp
qed

end
